theory Spec2Isabelle
  imports Main "HOL-Library.Word"
begin

section \<open>Data model of \<^verbatim>\<open>glutton.go\<close>\<close>

text \<open>
  Go's \<^verbatim>\<open>error\<close> interface: the error that \<^verbatim>\<open>os.IsNotExist\<close> recognises, and any
  other error with its message. A returned error is an \<open>error option\<close>, with \<open>None\<close>
  for \<^verbatim>\<open>nil\<close>.
\<close>

datatype error = ENOENT | Failure string

fun Error_string :: "error \<Rightarrow> string" where
  "Error_string ENOENT = ''no such file or directory''"
| "Error_string (Failure msg) = msg"

fun IsNotExist :: "error option \<Rightarrow> bool" where
  "IsNotExist (Some ENOENT) = True"
| "IsNotExist _ = False"

type_synonym byte = "8 word"

text \<open>\<^verbatim>\<open>uuid.UUID\<close> is the array type \<^verbatim>\<open>[16]byte\<close>.\<close>

typedef uuid = "{bs :: byte list. length bs = 16}"
  by (rule exI [of _ "replicate 16 0"]) simp

text \<open>
  \<^verbatim>\<open>freki.Rule\<close>: the three fields that \<^verbatim>\<open>glutton.go\<close> reads. The rule set is a slice of
  pointers; each position of the list stands for one rule object, and an assignment to a
  field of a rule is an update at its position.
\<close>

record rule =
  Type :: string
  Name :: string
  Target :: string

datatype level = DebugLevel | WarnLevel | ErrorLevel

type_synonym log_entry = "level \<times> string"

text \<open>A connection, as far as the code looks at it.\<close>

record conn =
  RemoteAddr :: string
  SetDeadline_result :: "error option"

record metadata =
  TargetPort :: nat

text \<open>The context handed to a protocol handler.\<close>

record ctx =
  parent_cancelled :: bool
  limit :: nat

text \<open>
  \<^verbatim>\<open>type protocolHandlerFunc func(ctx context.Context, conn net.Conn) error\<close>.
  A value stored in the registry may be the \<^verbatim>\<open>nil\<close> function: the registry maps a key to
  a \<open>protocolHandlerFunc option\<close>, and \<open>Some None\<close> is a key that is present with a
  \<^verbatim>\<open>nil\<close> value.
\<close>

type_synonym protocolHandlerFunc = "ctx \<Rightarrow> conn \<Rightarrow> error option"

type_synonym registry = "string \<rightharpoonup> protocolHandlerFunc option"

text \<open>
  The packet processor of the freki library: the calls it has received.
  \<open>connHandlers\<close> lists the names passed to \<^verbatim>\<open>RegisterConnHandler\<close>, in call order;
  \<open>shutdowns\<close> counts the calls of \<^verbatim>\<open>Shutdown\<close>.
\<close>

record processor =
  connHandlers :: "string list"
  shutdowns :: nat

text \<open>The telemetry producer, built by \<^verbatim>\<open>producer.New(g.id.String())\<close>.\<close>

record producer =
  sensorID :: string

text \<open>An interception proxy, as built by the constructors of the SSH and telnet proxies.\<close>

record proxy =
  destination :: string

text \<open>
  \<^verbatim>\<open>type Glutton struct\<close>. The field \<^verbatim>\<open>id\<close> is named \<open>id_g\<close>; the pair
  \<^verbatim>\<open>ctx\<close>/\<^verbatim>\<open>cancel\<close> is the flag \<open>ctx_cancelled\<close>; \<open>Logger\<close> is the list of entries
  written to the logger.
\<close>

record glutton =
  id_g :: uuid
  Logger :: "log_entry list"
  Processor :: processor
  rules :: "rule list"
  Producer :: "producer option"
  protocolHandlers :: registry
  telnetProxy :: "proxy option"
  sshProxy :: "proxy option"
  ctx_cancelled :: bool

text \<open>
  What a call does besides returning: it returns a value, it faults (a \<^verbatim>\<open>nil\<close>
  dereference or a call of a \<^verbatim>\<open>nil\<close> function), or it blocks forever on a channel.
\<close>

datatype 'a outcome = Returned 'a | Panicked | Blocked

text \<open>
  What the code calls and does not define: the outcome of constructing a proxy for a
  destination, of \<^verbatim>\<open>net.SplitHostPort\<close>, of the telemetry sink on a record, of
  \<^verbatim>\<open>Processor.Shutdown\<close>, the configured \<^verbatim>\<open>conn_timeout\<close>, whether the watchdog of a
  connection has left through cancellation before the handler finishes, and what
  \<^verbatim>\<open>Producer.Log\<close> does when it is called on a \<^verbatim>\<open>nil\<close> producer.
\<close>

record telemetry_record =
  identity :: string
  peer :: string
  dest_port :: "nat option"
  payload :: "byte list option"

record env =
  ssh_construct :: "string \<Rightarrow> error + proxy"
  telnet_construct :: "string \<Rightarrow> error + proxy"
  SplitHostPort :: "string \<Rightarrow> error + string \<times> string"
  sink :: "telemetry_record \<Rightarrow> error option"
  Processor_Shutdown :: "processor \<Rightarrow> error option"
  conn_timeout :: int
  watchdog_left :: bool
  Log_nil_receiver :: "error option outcome"

section \<open>\<^verbatim>\<open>registerHandlers\<close>\<close>

text \<open>
  Indexing a Go map: a missing key gives the zero value of the value type, here the
  \<^verbatim>\<open>nil\<close> function.
\<close>

definition go_index :: "registry \<Rightarrow> string \<Rightarrow> protocolHandlerFunc option" where
  "go_index m k = (case m k of None \<Rightarrow> None | Some v \<Rightarrow> v)"

text \<open>
  Modelled from the spec: \<^verbatim>\<open>NewSSHProxy\<close> and \<^verbatim>\<open>NewTelnetProxy\<close> are methods of
  \<^verbatim>\<open>Glutton\<close> defined in other files of the repository. Section 4.2: each "constructs a
  dedicated interception proxy bound to Target" and may fail. On success the proxy is
  stored in the field of its kind; the handler registry is not touched.
\<close>

definition NewSSHProxy :: "env \<Rightarrow> string \<Rightarrow> glutton \<Rightarrow> error option \<times> glutton" where
  "NewSSHProxy e target g =
     (case ssh_construct e target of
        Inl err \<Rightarrow> (Some err, g)
      | Inr p \<Rightarrow> (None, g\<lparr>sshProxy := Some p\<rparr>))"

definition NewTelnetProxy :: "env \<Rightarrow> string \<Rightarrow> glutton \<Rightarrow> error option \<times> glutton" where
  "NewTelnetProxy e target g =
     (case telnet_construct e target of
        Inl err \<Rightarrow> (Some err, g)
      | Inr p \<Rightarrow> (None, g\<lparr>telnetProxy := Some p\<rparr>))"

definition log_to :: "level \<Rightarrow> string \<Rightarrow> glutton \<Rightarrow> glutton" where
  "log_to l msg g = g\<lparr>Logger := Logger g @ [(l, msg)]\<rparr>"

definition RegisterConnHandler :: "string \<Rightarrow> glutton \<Rightarrow> glutton" where
  "RegisterConnHandler handler g =
     g\<lparr>Processor := (Processor g)\<lparr>connHandlers := connHandlers (Processor g) @ [handler]\<rparr>\<rparr>"

text \<open>
  The \<^verbatim>\<open>switch rule.Name\<close> of the loop body. The result is the value of the local
  \<^verbatim>\<open>handler\<close> when the switch is left through \<^verbatim>\<open>break\<close> and \<open>None\<close> when it is left
  through \<^verbatim>\<open>continue\<close>, with the rule and the state as the switch leaves them.
\<close>

definition switch_Name :: "env \<Rightarrow> rule \<Rightarrow> glutton \<Rightarrow> string option \<times> rule \<times> glutton" where
  "switch_Name e rule g =
     (if Name rule = ''proxy_tcp'' then
        (let handler = Name rule;
             g1 = g\<lparr>protocolHandlers :=
                      (protocolHandlers g)(Target rule \<mapsto> go_index (protocolHandlers g) handler)\<rparr>;
             g2 = g1\<lparr>protocolHandlers := (protocolHandlers g1)(handler := None)\<rparr>
         in (Some (Target rule), rule, g2))
      else if Name rule = ''proxy_ssh'' then
        (let handler = Name rule in
         case NewSSHProxy e (Target rule) g of
           (Some err, g1) \<Rightarrow>
             (None, rule, log_to ErrorLevel ''[ssh.prxy] failed to initialize SSH proxy'' g1)
         | (None, g1) \<Rightarrow> (Some handler, rule\<lparr>Target := handler\<rparr>, g1))
      else if Name rule = ''proxy_telnet'' then
        (let handler = Name rule in
         case NewTelnetProxy e (Target rule) g of
           (Some err, g1) \<Rightarrow>
             (None, rule, log_to ErrorLevel ''[telnet.prxy] failed to initialize TELNET proxy'' g1)
         | (None, g1) \<Rightarrow> (Some handler, rule\<lparr>Target := handler\<rparr>, g1))
      else (Some (Target rule), rule, g))"

text \<open>One iteration of \<^verbatim>\<open>for _, rule := range g.rules\<close>.\<close>

definition registerHandlers_rule :: "env \<Rightarrow> rule \<Rightarrow> glutton \<Rightarrow> rule \<times> glutton" where
  "registerHandlers_rule e rule g =
     (if Type rule = ''conn_handler'' \<and> Target rule \<noteq> '''' then
        (case switch_Name e rule g of
           (None, rule1, g1) \<Rightarrow> (rule1, g1)
         | (Some handler, rule1, g1) \<Rightarrow>
             if go_index (protocolHandlers g1) handler = None then
               (rule1,
                log_to WarnLevel
                  (''[glutton ] no handler found for '' @ handler @ '' protocol'') g1)
             else (rule1, RegisterConnHandler handler g1))
      else (rule, g))"

fun registerHandlers_loop :: "env \<Rightarrow> rule list \<Rightarrow> glutton \<Rightarrow> rule list \<times> glutton" where
  "registerHandlers_loop e [] g = ([], g)"
| "registerHandlers_loop e (rule # rs) g =
     (case registerHandlers_rule e rule g of
        (rule1, g1) \<Rightarrow>
          (case registerHandlers_loop e rs g1 of
             (rs1, g2) \<Rightarrow> (rule1 # rs1, g2)))"

definition registerHandlers :: "env \<Rightarrow> glutton \<Rightarrow> glutton" where
  "registerHandlers e g =
     (case registerHandlers_loop e (rules g) g of (rs1, g1) \<Rightarrow> g1\<lparr>rules := rs1\<rparr>)"

section \<open>The connection callback\<close>

text \<open>
  The effects of a call on its collaborators, in program order. \<open>EvSetDeadline\<close> carries
  the configured number of seconds, not the deadline computed from it.
\<close>

datatype event =
    EvLog level string
  | EvProducerLog telemetry_record
  | EvGo_closeOnShutdown
  | EvSetDeadline int
  | EvContext nat
  | EvHandler string
  | EvDone
  | EvCancel
  | EvSleep nat
  | EvProcessorShutdown
  | EvLoggerSync

text \<open>
  Modelled from the spec: \<^verbatim>\<open>Producer.Log\<close> is defined in the package \<^verbatim>\<open>producer\<close> of
  the repository. Section 4.4 step 3: it emits "a structured record {identity, peer,
  matched rule/handler, destination port}", and the sink may reject it. Neither the
  source nor the spec says what the method does on a \<^verbatim>\<open>nil\<close> receiver: that outcome is
  the parameter \<open>Log_nil_receiver\<close>.
\<close>

definition Producer_Log ::
  "env \<Rightarrow> producer option \<Rightarrow> conn \<Rightarrow> metadata option \<Rightarrow> byte list option
     \<Rightarrow> error option outcome \<times> event list" where
  "Producer_Log e p c md pl =
     (case p of
        None \<Rightarrow> (Log_nil_receiver e, [])
      | Some pr \<Rightarrow>
          (let r = \<lparr>identity = sensorID pr, peer = RemoteAddr c,
                    dest_port = map_option TargetPort md, payload = pl\<rparr>
           in (Returned (sink e r), [EvProducerLog r])))"

text \<open>
  Modelled from the spec: \<^verbatim>\<open>contextWithTimeout\<close> is defined in another file of the
  repository. Section 4.4 step 5: it derives "a per-connection context from the
  GlobalShutdownSignal with an additional bounded upper-bound timeout".
\<close>

definition contextWithTimeout :: "glutton \<Rightarrow> nat \<Rightarrow> ctx" where
  "contextWithTimeout g n = \<lparr>parent_cancelled = ctx_cancelled g, limit = n\<rparr>"

text \<open>
  Modelled from the spec: \<^verbatim>\<open>closeOnShutdown\<close> is defined in another file of the
  repository. Section 4.4 step 6: the watchdog "blocks until either (a) the handler
  signals completion via a private done-channel, or (b) the derived context is canceled".
  The channel \<^verbatim>\<open>done\<close> is unbuffered and the watchdog is its only receiver: the send
  \<^verbatim>\<open>done <- struct{}{}\<close> completes when the watchdog is still waiting, and blocks when the
  watchdog has left through (b).
\<close>

definition send_done :: "env \<Rightarrow> bool" where
  "send_done e = (\<not> watchdog_left e)"

fun digit :: "nat \<Rightarrow> char" where
  "digit n = char_of (48 + n)"

fun Itoa :: "nat \<Rightarrow> string" where
  "Itoa n = (if n < 10 then [digit n] else Itoa (n div 10) @ [digit (n mod 10)])"

declare Itoa.simps [simp del]

text \<open>
  The part of the callback from \<^verbatim>\<open>done := make(chan struct{})\<close> to its end. The
  handler is looked up in the registry when the callback runs.
\<close>

definition serve :: "env \<Rightarrow> glutton \<Rightarrow> string \<Rightarrow> conn \<Rightarrow> error option outcome \<times> event list" where
  "serve e g handler c =
     (let t1 = [EvGo_closeOnShutdown, EvSetDeadline (conn_timeout e)] in
      case SetDeadline_result c of
        Some err \<Rightarrow> (Returned (Some err), t1)
      | None \<Rightarrow>
          (let ctx = contextWithTimeout g 72;
               t2 = t1 @ [EvContext 72]
           in case go_index (protocolHandlers g) handler of
                None \<Rightarrow> (Panicked, t2)
              | Some h \<Rightarrow>
                  (let err = h ctx c;
                       t3 = t2 @ [EvHandler handler]
                   in if send_done e then (Returned err, t3 @ [EvDone])
                      else (Blocked, t3))))"

text \<open>
  The function literal that \<^verbatim>\<open>registerHandlers\<close> passes to
  \<^verbatim>\<open>RegisterConnHandler\<close>. It closes over \<^verbatim>\<open>g\<close> and \<^verbatim>\<open>handler\<close>; \<open>g\<close> is the state
  at the time of the call. The structured fields of the debug entry are left out.
\<close>

definition connHandler ::
  "env \<Rightarrow> glutton \<Rightarrow> string \<Rightarrow> conn \<Rightarrow> metadata option \<Rightarrow> error option outcome \<times> event list" where
  "connHandler e g handler c md =
     (case SplitHostPort e (RemoteAddr c) of
        Inl err \<Rightarrow> (Returned (Some err), [])
      | Inr (host, port) \<Rightarrow>
          (case md of
             None \<Rightarrow>
               (Returned None,
                [EvLog DebugLevel (''[glutton ] connection not tracked: '' @ host @ '':'' @ port)])
           | Some m \<Rightarrow>
               (let t1 = [EvLog DebugLevel
                            (''[glutton ] new connection: '' @ host @ '':'' @ port @ '' -> ''
                               @ Itoa (TargetPort m))]
                in case Producer g of
                     None \<Rightarrow> (case serve e g handler c of (r, t) \<Rightarrow> (r, t1 @ t))
                   | Some p \<Rightarrow>
                       (case Producer_Log e (Some p) c md None of
                          (Returned (Some err), t2) \<Rightarrow>
                            (Returned (Some err),
                             t1 @ t2 @ [EvLog ErrorLevel (''[glutton ] error: '' @ Error_string err)])
                        | (Returned None, t2) \<Rightarrow>
                            (case serve e g handler c of (r, t) \<Rightarrow> (r, t1 @ t2 @ t))
                        | (r, t2) \<Rightarrow> (r, t1 @ t2)))))"

section \<open>\<^verbatim>\<open>Produce\<close> and \<^verbatim>\<open>Shutdown\<close>\<close>

definition Produce ::
  "env \<Rightarrow> glutton \<Rightarrow> conn \<Rightarrow> metadata option \<Rightarrow> byte list option
     \<Rightarrow> error option outcome \<times> event list" where
  "Produce e g c md pl = Producer_Log e (Producer g) c md pl"

text \<open>
  \<^verbatim>\<open>Shutdown\<close>: cancel, sleep two seconds, stop the processor; the deferred
  \<^verbatim>\<open>Logger.Sync\<close> runs last. The result of \<^verbatim>\<open>Processor.Shutdown\<close> may depend on the
  processor, which counts the calls.
\<close>

definition Shutdown :: "env \<Rightarrow> glutton \<Rightarrow> error option \<times> glutton \<times> event list" where
  "Shutdown e g =
     (let g1 = g\<lparr>ctx_cancelled := True\<rparr>;
          err = Processor_Shutdown e (Processor g1);
          g2 = g1\<lparr>Processor := (Processor g1)\<lparr>shutdowns := shutdowns (Processor g1) + 1\<rparr>\<rparr>
      in (err, g2, [EvCancel, EvSleep 2, EvProcessorShutdown, EvLoggerSync]))"

section \<open>\<^verbatim>\<open>makeID\<close>\<close>

text \<open>
  The file system: a path names nothing, a directory, or a regular file with its bytes.
\<close>

datatype node = Dir | File "byte list"

type_synonym filesystem = "string \<rightharpoonup> node"

text \<open>
  What \<^verbatim>\<open>makeID\<close> calls and does not define: the configured \<^verbatim>\<open>var-dir\<close>, the path
  that \<^verbatim>\<open>filepath.Join\<close> builds, the identity that \<^verbatim>\<open>uuid.NewV4\<close> draws, and for each
  call of the operating system whether it fails for a reason outside the file system
  modelled here. A failed write comes with what it leaves at the path.
\<close>

record os_env =
  var_dir :: string
  Join :: "string \<Rightarrow> string \<Rightarrow> string"
  NewV4 :: uuid
  MkdirAll_fault :: "string option"
  Stat_fault :: "string option"
  WriteFile_fault :: "(string \<times> byte list option) option"
  Open_fault :: "string option"
  ReadAll_fault :: "string option"

definition Bytes :: "uuid \<Rightarrow> byte list" where
  "Bytes u = Rep_uuid u"

definition Nil_uuid :: uuid where
  "Nil_uuid = Abs_uuid (replicate 16 0)"

text \<open>
  \<^verbatim>\<open>uuid.FromBytes\<close>: the input must be exactly 16 bytes long; on an error the
  returned identity is the zero value.
\<close>

definition FromBytes :: "byte list \<Rightarrow> uuid \<times> error option" where
  "FromBytes input =
     (if length input = 16 then (Abs_uuid input, None)
      else (Nil_uuid,
            Some (Failure (''uuid: UUID must be exactly 16 bytes long, got ''
                             @ Itoa (length input) @ '' bytes''))))"

definition MkdirAll :: "os_env \<Rightarrow> string \<Rightarrow> filesystem \<Rightarrow> error option \<times> filesystem" where
  "MkdirAll e path fs =
     (case MkdirAll_fault e of
        Some msg \<Rightarrow> (Some (Failure msg), fs)
      | None \<Rightarrow>
          (case fs path of
             Some (File bs) \<Rightarrow> (Some (Failure ''not a directory''), fs)
           | _ \<Rightarrow> (None, fs(path \<mapsto> Dir))))"

definition Stat :: "os_env \<Rightarrow> string \<Rightarrow> filesystem \<Rightarrow> error option" where
  "Stat e path fs =
     (case Stat_fault e of
        Some msg \<Rightarrow> Some (Failure msg)
      | None \<Rightarrow> (case fs path of None \<Rightarrow> Some ENOENT | Some n \<Rightarrow> None))"

definition WriteFile ::
  "os_env \<Rightarrow> string \<Rightarrow> byte list \<Rightarrow> filesystem \<Rightarrow> error option \<times> filesystem" where
  "WriteFile e path data fs =
     (case WriteFile_fault e of
        Some (msg, left) \<Rightarrow>
          (Some (Failure msg), (case left of None \<Rightarrow> fs | Some bs \<Rightarrow> fs(path \<mapsto> File bs)))
      | None \<Rightarrow>
          (case fs path of
             Some Dir \<Rightarrow> (Some (Failure ''is a directory''), fs)
           | _ \<Rightarrow> (None, fs(path \<mapsto> File data))))"

definition Open :: "os_env \<Rightarrow> string \<Rightarrow> filesystem \<Rightarrow> error + node" where
  "Open e path fs =
     (case Open_fault e of
        Some msg \<Rightarrow> Inl (Failure msg)
      | None \<Rightarrow> (case fs path of None \<Rightarrow> Inl ENOENT | Some n \<Rightarrow> Inr n))"

definition ReadAll :: "os_env \<Rightarrow> node \<Rightarrow> error + byte list" where
  "ReadAll e f =
     (case ReadAll_fault e of
        Some msg \<Rightarrow> Inl (Failure msg)
      | None \<Rightarrow> (case f of Dir \<Rightarrow> Inl (Failure ''is a directory'') | File bs \<Rightarrow> Inr bs))"

definition makeID :: "os_env \<Rightarrow> glutton \<Rightarrow> filesystem \<Rightarrow> error option \<times> glutton \<times> filesystem" where
  "makeID e g fs =
     (let fileName = ''glutton.id'';
          filePath = Join e (var_dir e) fileName
      in case MkdirAll e (var_dir e) fs of
           (Some err, fs1) \<Rightarrow> (Some err, g, fs1)
         | (None, fs1) \<Rightarrow>
             (let err = Stat e filePath fs1 in
              if IsNotExist err then
                (let g1 = g\<lparr>id_g := NewV4 e\<rparr> in
                 case WriteFile e filePath (Bytes (id_g g1)) fs1 of
                   (Some err1, fs2) \<Rightarrow> (Some err1, g1, fs2)
                 | (None, fs2) \<Rightarrow> (None, g1, fs2))
              else
                (case err of
                   Some err1 \<Rightarrow> (Some err1, g, fs1)
                 | None \<Rightarrow>
                     (case Open e filePath fs1 of
                        Inl err1 \<Rightarrow> (Some err1, g, fs1)
                      | Inr f \<Rightarrow>
                          (case ReadAll e f of
                             Inl err1 \<Rightarrow> (Some err1, g, fs1)
                           | Inr buff \<Rightarrow>
                               (case FromBytes buff of
                                  (u, err1) \<Rightarrow>
                                    (let g1 = g\<lparr>id_g := u\<rparr> in
                                     case err1 of
                                       Some err2 \<Rightarrow> (Some err2, g1, fs1)
                                     | None \<Rightarrow> (None, g1, fs1))))))))"

section \<open>Descriptions of the code used in the statements\<close>

text \<open>
  The condition of line 156, the two \<^verbatim>\<open>continue\<close> branches of the switch, the value of
  \<^verbatim>\<open>handler\<close> when the switch is left through \<^verbatim>\<open>break\<close>, the registry after the
  \<^verbatim>\<open>proxy_tcp\<close> case, the code after the switch, and the target of a rule after its
  iteration.
\<close>

definition eligible :: "rule \<Rightarrow> bool" where
  "eligible rule = (Type rule = ''conn_handler'' \<and> Target rule \<noteq> '''')"

definition construction_fails :: "env \<Rightarrow> rule \<Rightarrow> bool" where
  "construction_fails e rule =
     (Name rule = ''proxy_ssh'' \<and> isl (ssh_construct e (Target rule))
      \<or> Name rule = ''proxy_telnet'' \<and> isl (telnet_construct e (Target rule)))"

definition resolved :: "rule \<Rightarrow> string" where
  "resolved rule =
     (if Name rule = ''proxy_ssh'' \<or> Name rule = ''proxy_telnet'' then Name rule
      else Target rule)"

definition relay_registry :: "registry \<Rightarrow> string \<Rightarrow> registry" where
  "relay_registry m target = (m(target \<mapsto> go_index m ''proxy_tcp''))(''proxy_tcp'' := None)"

definition check_handler :: "string \<Rightarrow> glutton \<Rightarrow> glutton" where
  "check_handler handler g =
     (if go_index (protocolHandlers g) handler = None
      then log_to WarnLevel (''[glutton ] no handler found for '' @ handler @ '' protocol'') g
      else RegisterConnHandler handler g)"

definition Target_after :: "env \<Rightarrow> rule \<Rightarrow> string" where
  "Target_after e rule =
     (if eligible rule \<and> (Name rule = ''proxy_ssh'' \<or> Name rule = ''proxy_telnet'')
         \<and> \<not> construction_fails e rule
      then Name rule else Target rule)"

text \<open>The entries of lines 191, 171 and 180.\<close>

definition no_handler_msg :: "string \<Rightarrow> log_entry" where
  "no_handler_msg handler =
     (WarnLevel, ''[glutton ] no handler found for '' @ handler @ '' protocol'')"

definition construction_failed_msg :: "rule \<Rightarrow> string" where
  "construction_failed_msg rule =
     (if Name rule = ''proxy_ssh'' then ''[ssh.prxy] failed to initialize SSH proxy''
      else ''[telnet.prxy] failed to initialize TELNET proxy'')"

text \<open>
  A rule that takes the \<^verbatim>\<open>proxy_tcp\<close> case, and two states that agree on the processor
  and on the registry.
\<close>

definition is_relay :: "rule \<Rightarrow> bool" where
  "is_relay rule = (eligible rule \<and> Name rule = ''proxy_tcp'')"

definition same_dispatch :: "glutton \<Rightarrow> glutton \<Rightarrow> bool" where
  "same_dispatch g g' =
     (Processor g = Processor g' \<and> protocolHandlers g = protocolHandlers g')"

text \<open>The path of the identity file, and an operating system that adds no failure.\<close>

definition idPath :: "os_env \<Rightarrow> string" where
  "idPath e = Join e (var_dir e) ''glutton.id''"

definition no_faults :: "os_env \<Rightarrow> bool" where
  "no_faults e =
     (MkdirAll_fault e = None \<and> Stat_fault e = None \<and> WriteFile_fault e = None \<and>
      Open_fault e = None \<and> ReadAll_fault e = None)"

section \<open>Concrete inputs\<close>

text \<open>
  A handler that returns \<^verbatim>\<open>nil\<close>; an environment in which every collaborator succeeds,
  and one in which the proxies cannot be constructed, the sink rejects every record and
  the processor refuses a second stop; the state that \<^verbatim>\<open>New\<close> builds, before the rules
  are read.
\<close>

definition handler_ok :: protocolHandlerFunc where
  "handler_ok = (\<lambda>ctx c. None)"

definition env_ok :: env where
  "env_ok =
     \<lparr>ssh_construct = (\<lambda>t. Inr \<lparr>destination = t\<rparr>),
      telnet_construct = (\<lambda>t. Inr \<lparr>destination = t\<rparr>),
      SplitHostPort = (\<lambda>a. Inr (''198.51.100.7'', ''40022'')),
      sink = (\<lambda>r. None),
      Processor_Shutdown = (\<lambda>p. None),
      conn_timeout = 45,
      watchdog_left = False,
      Log_nil_receiver = Returned None\<rparr>"

definition env_fail :: env where
  "env_fail =
     \<lparr>ssh_construct = (\<lambda>t. Inl (Failure ''dial tcp: connection refused'')),
      telnet_construct = (\<lambda>t. Inl (Failure ''dial tcp: connection refused'')),
      SplitHostPort = (\<lambda>a. Inr (''198.51.100.7'', ''40022'')),
      sink = (\<lambda>r. Some (Failure ''hpfeeds: not connected'')),
      Processor_Shutdown = (\<lambda>p. if shutdowns p = 0 then None
                                 else Some (Failure ''processor already stopped'')),
      conn_timeout = 45,
      watchdog_left = False,
      Log_nil_receiver = Panicked\<rparr>"

definition glutton_new :: glutton where
  "glutton_new =
     \<lparr>id_g = Nil_uuid, Logger = [], Processor = \<lparr>connHandlers = [], shutdowns = 0\<rparr>,
      rules = [], Producer = None, protocolHandlers = Map.empty, telnetProxy = None,
      sshProxy = None, ctx_cancelled = False\<rparr>"

text \<open>Rules, and states with rules and handlers.\<close>

definition rule_http :: rule where
  "rule_http = \<lparr>Type = ''conn_handler'', Name = ''http'', Target = ''http''\<rparr>"

definition rule_smtp :: rule where
  "rule_smtp = \<lparr>Type = ''conn_handler'', Name = ''smtp'', Target = ''smtp''\<rparr>"

definition rule_ssh :: rule where
  "rule_ssh = \<lparr>Type = ''conn_handler'', Name = ''proxy_ssh'', Target = ''tcp://172.17.0.2:22''\<rparr>"

definition rule_relay :: rule where
  "rule_relay = \<lparr>Type = ''conn_handler'', Name = ''proxy_tcp'', Target = ''8080''\<rparr>"

definition rule_relay_self :: rule where
  "rule_relay_self = \<lparr>Type = ''conn_handler'', Name = ''proxy_tcp'', Target = ''proxy_tcp''\<rparr>"

definition rule_relay_9090 :: rule where
  "rule_relay_9090 = \<lparr>Type = ''conn_handler'', Name = ''proxy_tcp'', Target = ''9090''\<rparr>"

definition glutton_http :: glutton where
  "glutton_http =
     glutton_new\<lparr>rules := [rule_http, rule_smtp],
                  protocolHandlers := [''http'' \<mapsto> Some handler_ok]\<rparr>"

definition glutton_ssh :: glutton where
  "glutton_ssh =
     glutton_new\<lparr>rules := [rule_ssh],
                  protocolHandlers := [''proxy_ssh'' \<mapsto> Some handler_ok]\<rparr>"

definition glutton_relays :: glutton where
  "glutton_relays =
     glutton_new\<lparr>rules := [rule_relay_9090, rule_relay],
                  protocolHandlers := [''proxy_tcp'' \<mapsto> Some handler_ok]\<rparr>"

text \<open>
  A serving state with a producer, a connection that accepts a deadline and one on which
  \<^verbatim>\<open>SetDeadline\<close> fails because it is closed already.
\<close>

definition glutton_serving :: glutton where
  "glutton_serving =
     glutton_new\<lparr>protocolHandlers := [''http'' \<mapsto> Some handler_ok],
                  Producer := Some \<lparr>sensorID = ''f3a1''\<rparr>\<rparr>"

definition conn_open :: conn where
  "conn_open = \<lparr>RemoteAddr = ''198.51.100.7:40022'', SetDeadline_result = None\<rparr>"

definition conn_closed :: conn where
  "conn_closed =
     \<lparr>RemoteAddr = ''198.51.100.7:40022'',
      SetDeadline_result = Some (Failure ''use of closed network connection'')\<rparr>"

text \<open>
  An operating system without failures, with the identity that \<^verbatim>\<open>uuid.NewV4\<close> draws, and
  the same with another draw.
\<close>

definition os_plain :: os_env where
  "os_plain =
     \<lparr>var_dir = ''/var/lib/glutton'',
      Join = (\<lambda>d n. d @ ''/'' @ n),
      NewV4 = Abs_uuid [0x6b, 0xa7, 0xb8, 0x10, 0x9d, 0xad, 0x41, 0xd1,
                        0x80, 0xb4, 0x00, 0xc0, 0x4f, 0xd4, 0x30, 0xc8],
      MkdirAll_fault = None, Stat_fault = None, WriteFile_fault = None, Open_fault = None,
      ReadAll_fault = None\<rparr>"

definition os_later :: os_env where
  "os_later = os_plain\<lparr>NewV4 := Nil_uuid\<rparr>"

section \<open>The loop body, case by case\<close>

lemma switch_tcp:
  "Name rule = ''proxy_tcp'' \<Longrightarrow>
   switch_Name e rule g =
     (Some (Target rule), rule,
      g\<lparr>protocolHandlers := relay_registry (protocolHandlers g) (Target rule)\<rparr>)"
  by (simp add: switch_Name_def Let_def relay_registry_def)

lemma switch_ssh_fail:
  "Name rule = ''proxy_ssh'' \<Longrightarrow> ssh_construct e (Target rule) = Inl err \<Longrightarrow>
   switch_Name e rule g =
     (None, rule, log_to ErrorLevel ''[ssh.prxy] failed to initialize SSH proxy'' g)"
  by (simp add: switch_Name_def NewSSHProxy_def)

lemma switch_ssh_ok:
  "Name rule = ''proxy_ssh'' \<Longrightarrow> ssh_construct e (Target rule) = Inr p \<Longrightarrow>
   switch_Name e rule g =
     (Some ''proxy_ssh'', rule\<lparr>Target := ''proxy_ssh''\<rparr>, g\<lparr>sshProxy := Some p\<rparr>)"
  by (simp add: switch_Name_def NewSSHProxy_def Let_def)

lemma switch_telnet_fail:
  "Name rule = ''proxy_telnet'' \<Longrightarrow> telnet_construct e (Target rule) = Inl err \<Longrightarrow>
   switch_Name e rule g =
     (None, rule, log_to ErrorLevel ''[telnet.prxy] failed to initialize TELNET proxy'' g)"
  by (simp add: switch_Name_def NewTelnetProxy_def)

lemma switch_telnet_ok:
  "Name rule = ''proxy_telnet'' \<Longrightarrow> telnet_construct e (Target rule) = Inr p \<Longrightarrow>
   switch_Name e rule g =
     (Some ''proxy_telnet'', rule\<lparr>Target := ''proxy_telnet''\<rparr>, g\<lparr>telnetProxy := Some p\<rparr>)"
  by (simp add: switch_Name_def NewTelnetProxy_def Let_def)

lemma switch_default:
  "Name rule \<noteq> ''proxy_tcp'' \<Longrightarrow> Name rule \<noteq> ''proxy_ssh'' \<Longrightarrow>
   Name rule \<noteq> ''proxy_telnet'' \<Longrightarrow>
   switch_Name e rule g = (Some (Target rule), rule, g)"
  by (simp add: switch_Name_def)

lemma rule_skip: "\<not> eligible rule \<Longrightarrow> registerHandlers_rule e rule g = (rule, g)"
  unfolding registerHandlers_rule_def eligible_def by (rule if_not_P)

lemma rule_switch:
  "eligible rule \<Longrightarrow>
   registerHandlers_rule e rule g =
     (case switch_Name e rule g of
        (None, rule1, g1) \<Rightarrow> (rule1, g1)
      | (Some handler, rule1, g1) \<Rightarrow> (rule1, check_handler handler g1))"
  by (simp add: registerHandlers_rule_def eligible_def check_handler_def
        split: prod.splits option.splits)

lemma rule_tcp:
  "eligible rule \<Longrightarrow> Name rule = ''proxy_tcp'' \<Longrightarrow>
   registerHandlers_rule e rule g =
     (rule, check_handler (Target rule)
              (g\<lparr>protocolHandlers := relay_registry (protocolHandlers g) (Target rule)\<rparr>))"
  by (simp add: rule_switch switch_tcp)

lemma rule_ssh_fail:
  "eligible rule \<Longrightarrow> Name rule = ''proxy_ssh'' \<Longrightarrow> ssh_construct e (Target rule) = Inl err \<Longrightarrow>
   registerHandlers_rule e rule g =
     (rule, log_to ErrorLevel ''[ssh.prxy] failed to initialize SSH proxy'' g)"
  by (simp add: rule_switch switch_ssh_fail)

lemma rule_ssh_ok:
  "eligible rule \<Longrightarrow> Name rule = ''proxy_ssh'' \<Longrightarrow> ssh_construct e (Target rule) = Inr p \<Longrightarrow>
   registerHandlers_rule e rule g =
     (rule\<lparr>Target := ''proxy_ssh''\<rparr>, check_handler ''proxy_ssh'' (g\<lparr>sshProxy := Some p\<rparr>))"
  by (simp add: rule_switch switch_ssh_ok)

lemma rule_telnet_fail:
  "eligible rule \<Longrightarrow> Name rule = ''proxy_telnet'' \<Longrightarrow>
   telnet_construct e (Target rule) = Inl err \<Longrightarrow>
   registerHandlers_rule e rule g =
     (rule, log_to ErrorLevel ''[telnet.prxy] failed to initialize TELNET proxy'' g)"
  by (simp add: rule_switch switch_telnet_fail)

lemma rule_telnet_ok:
  "eligible rule \<Longrightarrow> Name rule = ''proxy_telnet'' \<Longrightarrow>
   telnet_construct e (Target rule) = Inr p \<Longrightarrow>
   registerHandlers_rule e rule g =
     (rule\<lparr>Target := ''proxy_telnet''\<rparr>,
      check_handler ''proxy_telnet'' (g\<lparr>telnetProxy := Some p\<rparr>))"
  by (simp add: rule_switch switch_telnet_ok)

lemma rule_default:
  "eligible rule \<Longrightarrow> Name rule \<noteq> ''proxy_tcp'' \<Longrightarrow> Name rule \<noteq> ''proxy_ssh'' \<Longrightarrow>
   Name rule \<noteq> ''proxy_telnet'' \<Longrightarrow>
   registerHandlers_rule e rule g = (rule, check_handler (Target rule) g)"
  by (simp add: rule_switch switch_default)


text \<open>The seven ways through the loop body.\<close>

lemma rule_cases [case_names skip tcp ssh_fail ssh_ok telnet_fail telnet_ok default]:
  assumes "\<not> eligible rule \<Longrightarrow> P"
    and "eligible rule \<Longrightarrow> Name rule = ''proxy_tcp'' \<Longrightarrow> P"
    and "\<And>err. eligible rule \<Longrightarrow> Name rule = ''proxy_ssh'' \<Longrightarrow>
           ssh_construct e (Target rule) = Inl err \<Longrightarrow> P"
    and "\<And>p. eligible rule \<Longrightarrow> Name rule = ''proxy_ssh'' \<Longrightarrow>
           ssh_construct e (Target rule) = Inr p \<Longrightarrow> P"
    and "\<And>err. eligible rule \<Longrightarrow> Name rule = ''proxy_telnet'' \<Longrightarrow>
           telnet_construct e (Target rule) = Inl err \<Longrightarrow> P"
    and "\<And>p. eligible rule \<Longrightarrow> Name rule = ''proxy_telnet'' \<Longrightarrow>
           telnet_construct e (Target rule) = Inr p \<Longrightarrow> P"
    and "eligible rule \<Longrightarrow> Name rule \<noteq> ''proxy_tcp'' \<Longrightarrow> Name rule \<noteq> ''proxy_ssh'' \<Longrightarrow>
           Name rule \<noteq> ''proxy_telnet'' \<Longrightarrow> P"
  shows P
proof (cases "eligible rule")
  case False
  then show ?thesis by (rule assms(1))
next
  case el: True
  show ?thesis
  proof (cases "Name rule = ''proxy_tcp''")
    case True
    with el show ?thesis by (rule assms(2))
  next
    case ntcp: False
    show ?thesis
    proof (cases "Name rule = ''proxy_ssh''")
      case True
      then show ?thesis
        using el assms(3,4) by (cases "ssh_construct e (Target rule)") blast+
    next
      case nssh: False
      show ?thesis
      proof (cases "Name rule = ''proxy_telnet''")
        case True
        then show ?thesis
          using el assms(5,6) by (cases "telnet_construct e (Target rule)") blast+
      next
        case False
        with el ntcp nssh show ?thesis by (rule assms(7))
      qed
    qed
  qed
qed

section \<open>The rules after \<^verbatim>\<open>registerHandlers\<close>\<close>

lemma rule_fst:
  "fst (registerHandlers_rule e rule g) = rule\<lparr>Target := Target_after e rule\<rparr>"
proof (cases rule: rule_cases [where rule = rule and e = e])
  case skip
  then show ?thesis by (simp add: rule_skip Target_after_def)
next
  case tcp
  then show ?thesis by (simp add: rule_tcp Target_after_def)
next
  case (ssh_fail err)
  then show ?thesis by (simp add: rule_ssh_fail Target_after_def construction_fails_def)
next
  case (ssh_ok p)
  then show ?thesis by (simp add: rule_ssh_ok Target_after_def construction_fails_def)
next
  case (telnet_fail err)
  then show ?thesis by (simp add: rule_telnet_fail Target_after_def construction_fails_def)
next
  case (telnet_ok p)
  then show ?thesis by (simp add: rule_telnet_ok Target_after_def construction_fails_def)
next
  case default
  then show ?thesis by (simp add: rule_default Target_after_def)
qed

lemma loop_fst:
  "fst (registerHandlers_loop e rs g) = map (\<lambda>r. r\<lparr>Target := Target_after e r\<rparr>) rs"
proof (induction rs arbitrary: g)
  case Nil
  show ?case by simp
next
  case (Cons r rs)
  have "fst (registerHandlers_loop e (r # rs) g) =
        fst (registerHandlers_rule e r g) #
        fst (registerHandlers_loop e rs (snd (registerHandlers_rule e r g)))"
    by (simp split: prod.splits)
  then show ?case by (simp only: rule_fst Cons.IH list.map)
qed

lemma rules_registerHandlers:
  "rules (registerHandlers e g) = map (\<lambda>r. r\<lparr>Target := Target_after e r\<rparr>) (rules g)"
proof -
  have "rules (registerHandlers e g) = fst (registerHandlers_loop e (rules g) g)"
    by (simp add: registerHandlers_def split: prod.splits)
  then show ?thesis by (simp only: loop_fst)
qed

text \<open>
  C8 (amended). \<^verbatim>\<open>registerHandlers\<close> keeps the number and the order of the rules and
  the fields \<^verbatim>\<open>Type\<close> and \<^verbatim>\<open>Name\<close> of every rule. It keeps \<^verbatim>\<open>Target\<close> too, except for
  a rule of type \<^verbatim>\<open>conn_handler\<close> with a non-empty target, named \<^verbatim>\<open>proxy_ssh\<close> or
  \<^verbatim>\<open>proxy_telnet\<close>, whose proxy is constructed: the target of such a rule becomes its
  name (lines 174 and 183).
\<close>

theorem registerHandlers_rules_frame:
  "length (rules (registerHandlers e g)) = length (rules g) \<and>
   (\<forall>i < length (rules g).
      Type (rules (registerHandlers e g) ! i) = Type (rules g ! i) \<and>
      Name (rules (registerHandlers e g) ! i) = Name (rules g ! i) \<and>
      Target (rules (registerHandlers e g) ! i) =
        (if Type (rules g ! i) = ''conn_handler'' \<and> Target (rules g ! i) \<noteq> '''' \<and>
            (Name (rules g ! i) = ''proxy_ssh'' \<and>
               \<not> isl (ssh_construct e (Target (rules g ! i))) \<or>
             Name (rules g ! i) = ''proxy_telnet'' \<and>
               \<not> isl (telnet_construct e (Target (rules g ! i))))
         then Name (rules g ! i) else Target (rules g ! i)))"
proof -
  have T: "Target_after e r =
        (if Type r = ''conn_handler'' \<and> Target r \<noteq> '''' \<and>
            (Name r = ''proxy_ssh'' \<and> \<not> isl (ssh_construct e (Target r)) \<or>
             Name r = ''proxy_telnet'' \<and> \<not> isl (telnet_construct e (Target r)))
         then Name r else Target r)" for r
    unfolding Target_after_def eligible_def construction_fails_def by auto
  show ?thesis
    unfolding rules_registerHandlers by (simp add: T)
qed

theorem registerHandlers_rules_frame_witness:
  "Target (rules (registerHandlers env_ok (glutton_new\<lparr>rules := [rule_ssh]\<rparr>)) ! 0) = ''proxy_ssh''
   \<and> Name (rules (registerHandlers env_ok (glutton_new\<lparr>rules := [rule_ssh]\<rparr>)) ! 0) = ''proxy_ssh''"
  using registerHandlers_rules_frame [of env_ok "glutton_new\<lparr>rules := [rule_ssh]\<rparr>"]
  by (simp add: rule_ssh_def env_ok_def)

text \<open>
  C8 as stated fails: a \<^verbatim>\<open>proxy_ssh\<close> rule whose proxy is constructed leaves
  \<^verbatim>\<open>registerHandlers\<close> with another target.
\<close>

theorem rules_read_only_counterexample:
  "\<not> (\<forall>i < length (rules (glutton_new\<lparr>rules := [rule_ssh]\<rparr>)).
        Target (rules (registerHandlers env_ok (glutton_new\<lparr>rules := [rule_ssh]\<rparr>)) ! i) =
        Target (rules (glutton_new\<lparr>rules := [rule_ssh]\<rparr>) ! i))"
proof -
  have "Target_after env_ok rule_ssh = ''proxy_ssh''"
    by (simp add: Target_after_def eligible_def construction_fails_def rule_ssh_def env_ok_def)
  then show ?thesis
    by (simp add: rules_registerHandlers rule_ssh_def)
qed

section \<open>Which rules get a callback\<close>

lemma switch_handler:
  "fst (switch_Name e rule g) =
     (if construction_fails e rule then None else Some (resolved rule))"
  by (simp add: switch_Name_def construction_fails_def resolved_def NewSSHProxy_def
       NewTelnetProxy_def Let_def split: sum.splits)

lemma check_handler_protocolHandlers [simp]:
  "protocolHandlers (check_handler h g) = protocolHandlers g"
  by (simp add: check_handler_def log_to_def RegisterConnHandler_def)

lemma check_handler_connHandlers:
  "connHandlers (Processor (check_handler h g)) =
     connHandlers (Processor g) @ (if go_index (protocolHandlers g) h = None then [] else [h])"
  by (simp add: check_handler_def log_to_def RegisterConnHandler_def)

lemma check_handler_Logger:
  "Logger (check_handler h g) =
     Logger g @ (if go_index (protocolHandlers g) h = None then [no_handler_msg h] else [])"
  by (simp add: check_handler_def log_to_def RegisterConnHandler_def no_handler_msg_def)

lemma rule_protocolHandlers:
  "protocolHandlers (snd (registerHandlers_rule e rule g)) =
     (if eligible rule \<and> Name rule = ''proxy_tcp''
      then relay_registry (protocolHandlers g) (Target rule) else protocolHandlers g)"
proof (cases rule: rule_cases [where rule = rule and e = e])
  case skip
  then show ?thesis by (simp add: rule_skip)
next
  case tcp
  then show ?thesis by (simp add: rule_tcp)
next
  case (ssh_fail err)
  then show ?thesis by (simp add: rule_ssh_fail log_to_def)
next
  case (ssh_ok p)
  then show ?thesis by (simp add: rule_ssh_ok)
next
  case (telnet_fail err)
  then show ?thesis by (simp add: rule_telnet_fail log_to_def)
next
  case (telnet_ok p)
  then show ?thesis by (simp add: rule_telnet_ok)
next
  case default
  then show ?thesis by (simp add: rule_default)
qed

lemma rule_connHandlers:
  "connHandlers (Processor (snd (registerHandlers_rule e rule g))) =
     connHandlers (Processor g) @
       (if eligible rule \<and> \<not> construction_fails e rule \<and>
           go_index (protocolHandlers (snd (registerHandlers_rule e rule g))) (resolved rule)
             \<noteq> None
        then [resolved rule] else [])"
proof (cases rule: rule_cases [where rule = rule and e = e])
  case skip
  then show ?thesis by (simp add: rule_skip)
next
  case tcp
  then show ?thesis
    by (simp add: rule_tcp check_handler_connHandlers construction_fails_def resolved_def)
next
  case (ssh_fail err)
  then show ?thesis by (simp add: rule_ssh_fail log_to_def construction_fails_def)
next
  case (ssh_ok p)
  then show ?thesis
    by (simp add: rule_ssh_ok check_handler_connHandlers construction_fails_def resolved_def)
next
  case (telnet_fail err)
  then show ?thesis by (simp add: rule_telnet_fail log_to_def construction_fails_def)
next
  case (telnet_ok p)
  then show ?thesis
    by (simp add: rule_telnet_ok check_handler_connHandlers construction_fails_def resolved_def)
next
  case default
  then show ?thesis
    by (simp add: rule_default check_handler_connHandlers construction_fails_def resolved_def)
qed

lemma rule_Logger_found:
  "eligible rule \<Longrightarrow> \<not> construction_fails e rule \<Longrightarrow>
   Logger (snd (registerHandlers_rule e rule g)) =
     Logger g @
       (if go_index (protocolHandlers (snd (registerHandlers_rule e rule g))) (resolved rule)
             = None
        then [no_handler_msg (resolved rule)] else [])"
proof (cases rule: rule_cases [where rule = rule and e = e])
  case skip
  assume "eligible rule"
  with skip show ?thesis by simp
next
  case tcp
  then show ?thesis
    by (simp add: rule_tcp check_handler_Logger resolved_def)
next
  case (ssh_fail err)
  assume "\<not> construction_fails e rule"
  with ssh_fail show ?thesis by (simp add: construction_fails_def)
next
  case (ssh_ok p)
  then show ?thesis
    by (simp add: rule_ssh_ok check_handler_Logger resolved_def)
next
  case (telnet_fail err)
  assume "\<not> construction_fails e rule"
  with telnet_fail show ?thesis by (simp add: construction_fails_def)
next
  case (telnet_ok p)
  then show ?thesis
    by (simp add: rule_telnet_ok check_handler_Logger resolved_def)
next
  case default
  then show ?thesis
    by (simp add: rule_default check_handler_Logger resolved_def)
qed

lemma loop_snd_Nil: "snd (registerHandlers_loop e [] g) = g"
  by simp

lemma loop_snd_Cons:
  "snd (registerHandlers_loop e (r # rs) g) =
     snd (registerHandlers_loop e rs (snd (registerHandlers_rule e r g)))"
  by (simp split: prod.splits)

lemma loop_snoc:
  "snd (registerHandlers_loop e (xs @ [r]) g) =
     snd (registerHandlers_rule e r (snd (registerHandlers_loop e xs g)))"
proof (induction xs arbitrary: g)
  case Nil
  show ?case by (simp only: append_Nil loop_snd_Cons loop_snd_Nil)
next
  case (Cons x xs)
  show ?case by (simp only: append_Cons loop_snd_Cons Cons.IH)
qed

lemma loop_take_Suc:
  "i < length rs \<Longrightarrow>
   snd (registerHandlers_loop e (take (Suc i) rs) g) =
     snd (registerHandlers_rule e (rs ! i) (snd (registerHandlers_loop e (take i rs) g)))"
  by (simp only: take_Suc_conv_app_nth loop_snoc)

text \<open>
  C1 (amended). Take any rule of the rule set, the state in which the loop reaches it
  and the state in which the loop leaves it. A callback is registered for the rule, under
  the resolved name, exactly when its type is \<^verbatim>\<open>conn_handler\<close>, its target is not empty,
  the construction of its proxy (for \<^verbatim>\<open>proxy_ssh\<close> and \<^verbatim>\<open>proxy_telnet\<close>) does not fail,
  and the registry holds a handler that is not \<^verbatim>\<open>nil\<close> under the resolved name;
  otherwise the processor receives no call. When the first three conditions hold and no
  handler is found, the warning is logged.
\<close>

theorem registerHandlers_registers_iff:
  assumes "i < length (rules g)"
  shows
    "let r = rules g ! i;
         before = snd (registerHandlers_loop e (take i (rules g)) g);
         after = snd (registerHandlers_loop e (take (Suc i) (rules g)) g);
         found = (go_index (protocolHandlers after) (resolved r) \<noteq> None);
         registers = (Type r = ''conn_handler'' \<and> Target r \<noteq> '''' \<and>
                      \<not> construction_fails e r \<and> found)
     in (registers \<longrightarrow>
           connHandlers (Processor after) = connHandlers (Processor before) @ [resolved r]) \<and>
        (\<not> registers \<longrightarrow> connHandlers (Processor after) = connHandlers (Processor before)) \<and>
        (Type r = ''conn_handler'' \<and> Target r \<noteq> '''' \<and> \<not> construction_fails e r \<and> \<not> found
           \<longrightarrow> Logger after = Logger before @ [no_handler_msg (resolved r)])"
proof -
  define r where "r = rules g ! i"
  define before where "before = snd (registerHandlers_loop e (take i (rules g)) g)"
  define after where "after = snd (registerHandlers_loop e (take (Suc i) (rules g)) g)"
  have step: "after = snd (registerHandlers_rule e r before)"
    unfolding after_def before_def r_def using assms by (rule loop_take_Suc)
  have el: "eligible r \<longleftrightarrow> Type r = ''conn_handler'' \<and> Target r \<noteq> ''''"
    by (simp add: eligible_def)
  have conn: "connHandlers (Processor after) =
      connHandlers (Processor before) @
        (if eligible r \<and> \<not> construction_fails e r \<and>
            go_index (protocolHandlers after) (resolved r) \<noteq> None
         then [resolved r] else [])"
    unfolding step by (rule rule_connHandlers)
  have warn: "Logger after = Logger before @ [no_handler_msg (resolved r)]"
    if "eligible r" "\<not> construction_fails e r"
       "go_index (protocolHandlers after) (resolved r) = None"
    using rule_Logger_found [OF that(1,2), of before] that(3) unfolding step by simp
  have "(eligible r \<and> \<not> construction_fails e r \<and>
           go_index (protocolHandlers after) (resolved r) \<noteq> None \<longrightarrow>
           connHandlers (Processor after) = connHandlers (Processor before) @ [resolved r]) \<and>
        (\<not> (eligible r \<and> \<not> construction_fails e r \<and>
           go_index (protocolHandlers after) (resolved r) \<noteq> None) \<longrightarrow>
           connHandlers (Processor after) = connHandlers (Processor before)) \<and>
        (eligible r \<and> \<not> construction_fails e r \<and>
           \<not> go_index (protocolHandlers after) (resolved r) \<noteq> None
           \<longrightarrow> Logger after = Logger before @ [no_handler_msg (resolved r)])"
    using conn warn by auto
  then show ?thesis
    unfolding Let_def el r_def [symmetric] before_def [symmetric] after_def [symmetric]
    by blast
qed

theorem registerHandlers_registers_iff_witness:
  "connHandlers (Processor (snd (registerHandlers_loop env_ok [rule_http] glutton_http)))
     = [''http''] \<and>
   connHandlers (Processor (snd (registerHandlers_loop env_ok [rule_http, rule_smtp] glutton_http)))
     = [''http''] \<and>
   Logger (snd (registerHandlers_loop env_ok [rule_http, rule_smtp] glutton_http))
     = Logger (snd (registerHandlers_loop env_ok [rule_http] glutton_http))
         @ [no_handler_msg ''smtp'']"
proof -
  have f: "Type rule_http = ''conn_handler''" "Target rule_http = ''http''"
    "Type rule_smtp = ''conn_handler''" "Target rule_smtp = ''smtp''"
    by (simp_all add: rule_http_def rule_smtp_def)
  have len: "0 < length (rules glutton_http)" "Suc 0 < length (rules glutton_http)"
    by (simp_all add: glutton_http_def)
  have r: "rules glutton_http = [rule_http, rule_smtp]"
    by (simp add: glutton_http_def)
  have h: "eligible rule_http" "eligible rule_smtp"
    "\<not> construction_fails env_ok rule_http" "\<not> construction_fails env_ok rule_smtp"
    "resolved rule_http = ''http''" "resolved rule_smtp = ''smtp''"
    by (simp_all add: eligible_def construction_fails_def resolved_def rule_http_def rule_smtp_def)
  have s0: "snd (registerHandlers_loop env_ok [] glutton_http) = glutton_http"
    by simp
  have p0: "protocolHandlers (snd (registerHandlers_loop env_ok [rule_http] glutton_http))
      = [''http'' \<mapsto> Some handler_ok]"
    by (simp add: loop_snd_Cons loop_snd_Nil rule_protocolHandlers eligible_def glutton_http_def glutton_new_def
          rule_http_def del: registerHandlers_loop.simps)
  have p1: "protocolHandlers
       (snd (registerHandlers_loop env_ok [rule_http, rule_smtp] glutton_http))
      = [''http'' \<mapsto> Some handler_ok]"
    by (simp add: loop_snd_Cons loop_snd_Nil rule_protocolHandlers eligible_def glutton_http_def glutton_new_def
          rule_http_def rule_smtp_def del: registerHandlers_loop.simps)
  have b: "connHandlers (Processor glutton_http) = []" "Logger glutton_http = []"
    by (simp_all add: glutton_http_def glutton_new_def)
  show ?thesis
    using registerHandlers_registers_iff [OF len(1), of env_ok]
      registerHandlers_registers_iff [OF len(2), of env_ok]
    by (simp add: r f h s0 p0 p1 b go_index_def Let_def del: registerHandlers_loop.simps)
qed

text \<open>
  C1 as stated fails: a \<^verbatim>\<open>proxy_ssh\<close> rule of type \<^verbatim>\<open>conn_handler\<close> with a target,
  and a handler under \<^verbatim>\<open>proxy_ssh\<close> in the registry; the construction of the proxy
  fails, and no callback is registered.
\<close>

theorem registers_iff_counterexample:
  "\<not> (connHandlers (Processor (registerHandlers env_fail glutton_ssh))
          \<noteq> connHandlers (Processor glutton_ssh)
        \<longleftrightarrow>
        Type rule_ssh = ''conn_handler'' \<and> Target rule_ssh \<noteq> '''' \<and>
        go_index (protocolHandlers (registerHandlers env_fail glutton_ssh)) ''proxy_ssh''
          \<noteq> None)"
proof -
  have el: "eligible rule_ssh"
    by (simp add: eligible_def rule_ssh_def)
  have step: "registerHandlers_rule env_fail rule_ssh glutton_ssh =
      (rule_ssh, log_to ErrorLevel ''[ssh.prxy] failed to initialize SSH proxy'' glutton_ssh)"
    by (rule rule_ssh_fail [OF el]) (simp_all add: rule_ssh_def env_fail_def)
  have r: "rules glutton_ssh = [rule_ssh]"
    by (simp add: glutton_ssh_def)
  have run: "registerHandlers env_fail glutton_ssh =
      (log_to ErrorLevel ''[ssh.prxy] failed to initialize SSH proxy'' glutton_ssh)
        \<lparr>rules := [rule_ssh]\<rparr>"
    by (simp add: registerHandlers_def r step)
  show ?thesis
    unfolding run by (simp add: log_to_def glutton_ssh_def go_index_def rule_ssh_def)
qed

section \<open>The relay rule\<close>

lemma registerHandlers_snd:
  "protocolHandlers (registerHandlers e g) =
     protocolHandlers (snd (registerHandlers_loop e (rules g) g))"
  "Processor (registerHandlers e g) = Processor (snd (registerHandlers_loop e (rules g) g))"
  "Logger (registerHandlers e g) = Logger (snd (registerHandlers_loop e (rules g) g))"
  by (simp_all add: registerHandlers_def split: prod.splits)

lemma loop_snd_append:
  "snd (registerHandlers_loop e (xs @ ys) g) =
     snd (registerHandlers_loop e ys (snd (registerHandlers_loop e xs g)))"
proof (induction xs arbitrary: g)
  case Nil
  show ?case by (simp only: append_Nil loop_snd_Nil)
next
  case (Cons x xs)
  show ?case by (simp only: append_Cons loop_snd_Cons Cons.IH)
qed

lemma relay_registry_apply:
  "relay_registry m t k =
     (if k = ''proxy_tcp'' then None else if k = t then Some (go_index m ''proxy_tcp'') else m k)"
  by (simp add: relay_registry_def)

lemma rule_protocolHandlers_relay:
  "is_relay r \<Longrightarrow>
   protocolHandlers (snd (registerHandlers_rule e r g)) =
     relay_registry (protocolHandlers g) (Target r)"
  by (simp add: rule_protocolHandlers is_relay_def [symmetric])

lemma rule_protocolHandlers_other:
  "\<not> is_relay r \<Longrightarrow>
   protocolHandlers (snd (registerHandlers_rule e r g)) = protocolHandlers g"
  by (simp add: rule_protocolHandlers is_relay_def [symmetric])

lemma loop_protocolHandlers_other:
  "\<forall>r \<in> set rs. \<not> is_relay r \<Longrightarrow>
   protocolHandlers (snd (registerHandlers_loop e rs g)) = protocolHandlers g"
proof (induction rs arbitrary: g)
  case Nil
  show ?case by (simp only: loop_snd_Nil)
next
  case (Cons r rs)
  then have "\<not> is_relay r" and rest: "\<forall>r \<in> set rs. \<not> is_relay r"
    by simp_all
  then show ?case
    by (simp add: loop_snd_Cons Cons.IH [OF rest] rule_protocolHandlers_other
          del: registerHandlers_loop.simps)
qed

text \<open>Once the key \<^verbatim>\<open>proxy_tcp\<close> is gone, no later rule brings it back.\<close>

lemma rule_relay_absent:
  "protocolHandlers g ''proxy_tcp'' = None \<Longrightarrow>
   protocolHandlers (snd (registerHandlers_rule e r g)) ''proxy_tcp'' = None"
  by (cases "is_relay r")
    (simp_all add: rule_protocolHandlers_relay rule_protocolHandlers_other relay_registry_apply)

lemma rule_keeps_entry:
  assumes "protocolHandlers g ''proxy_tcp'' = None" and "t \<noteq> ''proxy_tcp''"
    and "is_relay r \<longrightarrow> Target r \<noteq> t"
  shows "protocolHandlers (snd (registerHandlers_rule e r g)) t = protocolHandlers g t"
  using assms
  by (cases "is_relay r")
    (simp_all add: rule_protocolHandlers_relay rule_protocolHandlers_other relay_registry_apply)

lemma loop_keeps_entry:
  assumes "protocolHandlers g ''proxy_tcp'' = None" and "t \<noteq> ''proxy_tcp''"
    and "\<forall>r \<in> set rs. is_relay r \<longrightarrow> Target r \<noteq> t"
  shows "protocolHandlers (snd (registerHandlers_loop e rs g)) t = protocolHandlers g t \<and>
         protocolHandlers (snd (registerHandlers_loop e rs g)) ''proxy_tcp'' = None"
  using assms
proof (induction rs arbitrary: g)
  case Nil
  then show ?case by (simp only: loop_snd_Nil simp_thms)
next
  case (Cons r rs)
  let ?g1 = "snd (registerHandlers_rule e r g)"
  from Cons.prems have r: "is_relay r \<longrightarrow> Target r \<noteq> t"
    and rest: "\<forall>r \<in> set rs. is_relay r \<longrightarrow> Target r \<noteq> t"
    by simp_all
  have a: "protocolHandlers ?g1 ''proxy_tcp'' = None"
    using Cons.prems(1) by (rule rule_relay_absent)
  have b: "protocolHandlers ?g1 t = protocolHandlers g t"
    using Cons.prems(1,2) r by (rule rule_keeps_entry)
  show ?case
    using Cons.IH [OF a Cons.prems(2) rest] b by (simp only: loop_snd_Cons)
qed

text \<open>
  C2 (amended). The rule set holds the rule \<^verbatim>\<open>{conn_handler, proxy_tcp, 8080}\<close>; no rule before it
  is a relay rule, and no relay rule after it has the target \<^verbatim>\<open>8080\<close> (so in particular
  when it is the only rule). With a handler under the key \<^verbatim>\<open>proxy_tcp\<close> before
  \<^verbatim>\<open>registerHandlers\<close>, that handler is under the key \<^verbatim>\<open>8080\<close> afterwards, and
  \<^verbatim>\<open>proxy_tcp\<close> is not a key of the registry.
\<close>

theorem registerHandlers_relay_rename:
  assumes "rules g = pre @ r # post"
    and "Type r = ''conn_handler''" and "Name r = ''proxy_tcp''" and "Target r = ''8080''"
    and "\<forall>x \<in> set pre. \<not> (Type x = ''conn_handler'' \<and> Target x \<noteq> '''' \<and> Name x = ''proxy_tcp'')"
    and "\<forall>x \<in> set post.
           Type x = ''conn_handler'' \<and> Name x = ''proxy_tcp'' \<longrightarrow> Target x \<noteq> ''8080''"
    and "protocolHandlers g ''proxy_tcp'' = Some (Some h)"
  shows "protocolHandlers (registerHandlers e g) ''8080'' = Some (Some h) \<and>
         ''proxy_tcp'' \<notin> dom (protocolHandlers (registerHandlers e g))"
proof -
  let ?g0 = "snd (registerHandlers_loop e pre g)"
  let ?g1 = "snd (registerHandlers_rule e r ?g0)"
  have pre: "\<forall>x \<in> set pre. \<not> is_relay x"
    using assms(5) by (simp add: is_relay_def eligible_def)
  have post: "\<forall>x \<in> set post. is_relay x \<longrightarrow> Target x \<noteq> ''8080''"
    using assms(6) by (simp add: is_relay_def eligible_def)
  have r: "is_relay r"
    using assms(2,3,4) by (simp add: is_relay_def eligible_def)
  have p0: "protocolHandlers ?g0 = protocolHandlers g"
    using pre by (rule loop_protocolHandlers_other)
  have p1: "protocolHandlers ?g1 = relay_registry (protocolHandlers g) ''8080''"
    using rule_protocolHandlers_relay [OF r, of e ?g0] by (simp only: p0 assms(4))
  have a: "protocolHandlers ?g1 ''proxy_tcp'' = None"
    by (simp add: p1 relay_registry_apply)
  have b: "protocolHandlers ?g1 ''8080'' = Some (Some h)"
    by (simp add: p1 relay_registry_apply go_index_def assms(7))
  have split: "snd (registerHandlers_loop e (rules g) g) = snd (registerHandlers_loop e post ?g1)"
    by (simp only: assms(1) loop_snd_append loop_snd_Cons)
  have "protocolHandlers (snd (registerHandlers_loop e post ?g1)) ''8080''
          = protocolHandlers ?g1 ''8080'' \<and>
        protocolHandlers (snd (registerHandlers_loop e post ?g1)) ''proxy_tcp'' = None"
    using a _ post by (rule loop_keeps_entry) simp
  then show ?thesis
    by (simp add: registerHandlers_snd split b domIff)
qed

theorem registerHandlers_relay_rename_witness:
  "protocolHandlers
     (registerHandlers env_ok
        (glutton_new\<lparr>rules := [rule_relay],
                      protocolHandlers := [''proxy_tcp'' \<mapsto> Some handler_ok]\<rparr>)) ''8080''
     = Some (Some handler_ok) \<and>
   ''proxy_tcp'' \<notin> dom (protocolHandlers
     (registerHandlers env_ok
        (glutton_new\<lparr>rules := [rule_relay],
                      protocolHandlers := [''proxy_tcp'' \<mapsto> Some handler_ok]\<rparr>)))"
  using registerHandlers_relay_rename
    [of "glutton_new\<lparr>rules := [rule_relay],
                      protocolHandlers := [''proxy_tcp'' \<mapsto> Some handler_ok]\<rparr>"
        "[]" rule_relay "[]" handler_ok env_ok]
  by (simp add: rule_relay_def)

text \<open>
  C2 as stated fails when another relay rule comes first: the rule for \<^verbatim>\<open>9090\<close> takes
  the handler and deletes the key \<^verbatim>\<open>proxy_tcp\<close>, and the rule for \<^verbatim>\<open>8080\<close> then stores
  \<^verbatim>\<open>nil\<close> under \<^verbatim>\<open>8080\<close>.
\<close>

theorem relay_rename_counterexample:
  "\<not> (protocolHandlers (registerHandlers env_ok glutton_relays) ''8080''
          = Some (Some handler_ok) \<and>
        ''proxy_tcp'' \<notin> dom (protocolHandlers (registerHandlers env_ok glutton_relays)))"
proof -
  have r: "is_relay rule_relay_9090" "is_relay rule_relay"
    by (simp_all add: is_relay_def eligible_def rule_relay_9090_def rule_relay_def)
  have rs: "rules glutton_relays = [rule_relay_9090, rule_relay]"
    and p: "protocolHandlers glutton_relays = [''proxy_tcp'' \<mapsto> Some handler_ok]"
    by (simp_all add: glutton_relays_def)
  have t: "Target rule_relay_9090 = ''9090''" "Target rule_relay = ''8080''"
    by (simp_all add: rule_relay_9090_def rule_relay_def)
  have "protocolHandlers (registerHandlers env_ok glutton_relays) ''8080'' = Some None"
    by (simp add: registerHandlers_snd rs loop_snd_Cons loop_snd_Nil
          rule_protocolHandlers_relay [OF r(1)] rule_protocolHandlers_relay [OF r(2)]
          p t relay_registry_apply go_index_def
          del: registerHandlers_loop.simps)
  then show ?thesis by simp
qed

section \<open>A proxy that cannot be constructed\<close>

text \<open>What \<^verbatim>\<open>registerHandlers\<close> does to the dispatch does not depend on the logger.\<close>

lemma check_handler_Processor_cong:
  "same_dispatch g g' \<Longrightarrow> same_dispatch (check_handler h g) (check_handler h g')"
  by (simp add: same_dispatch_def check_handler_def log_to_def RegisterConnHandler_def)

lemma rule_same_dispatch:
  assumes "same_dispatch g g'"
  shows "same_dispatch (snd (registerHandlers_rule e r g)) (snd (registerHandlers_rule e r g'))"
proof (cases rule: rule_cases [where rule = r and e = e])
  case skip
  then show ?thesis using assms by (simp add: rule_skip)
next
  case tcp
  have "same_dispatch
          (g\<lparr>protocolHandlers := relay_registry (protocolHandlers g) (Target r)\<rparr>)
          (g'\<lparr>protocolHandlers := relay_registry (protocolHandlers g') (Target r)\<rparr>)"
    using assms by (simp add: same_dispatch_def)
  then show ?thesis
    using tcp by (simp add: rule_tcp check_handler_Processor_cong)
next
  case (ssh_fail err)
  then show ?thesis using assms by (simp add: rule_ssh_fail log_to_def same_dispatch_def)
next
  case (ssh_ok p)
  have "same_dispatch (g\<lparr>sshProxy := Some p\<rparr>) (g'\<lparr>sshProxy := Some p\<rparr>)"
    using assms by (simp add: same_dispatch_def)
  then show ?thesis
    using ssh_ok by (simp add: rule_ssh_ok check_handler_Processor_cong)
next
  case (telnet_fail err)
  then show ?thesis using assms by (simp add: rule_telnet_fail log_to_def same_dispatch_def)
next
  case (telnet_ok p)
  have "same_dispatch (g\<lparr>telnetProxy := Some p\<rparr>) (g'\<lparr>telnetProxy := Some p\<rparr>)"
    using assms by (simp add: same_dispatch_def)
  then show ?thesis
    using telnet_ok by (simp add: rule_telnet_ok check_handler_Processor_cong)
next
  case default
  then show ?thesis using assms by (simp add: rule_default check_handler_Processor_cong)
qed

lemma loop_same_dispatch:
  "same_dispatch g g' \<Longrightarrow>
   same_dispatch (snd (registerHandlers_loop e rs g)) (snd (registerHandlers_loop e rs g'))"
proof (induction rs arbitrary: g g')
  case Nil
  then show ?case by (simp only: loop_snd_Nil)
next
  case (Cons r rs)
  from Cons.prems have "same_dispatch (snd (registerHandlers_rule e r g))
      (snd (registerHandlers_rule e r g'))"
    by (rule rule_same_dispatch)
  then show ?case
    by (simp only: loop_snd_Cons Cons.IH)
qed

lemma rule_construction_fails:
  assumes "eligible r" and "construction_fails e r"
  shows "registerHandlers_rule e r g = (r, log_to ErrorLevel (construction_failed_msg r) g)"
proof (cases rule: rule_cases [where rule = r and e = e])
  case skip
  with assms show ?thesis by simp
next
  case tcp
  with assms show ?thesis by (simp add: construction_fails_def)
next
  case (ssh_fail err)
  then show ?thesis by (simp add: rule_ssh_fail construction_failed_msg_def)
next
  case (ssh_ok p)
  with assms show ?thesis by (simp add: construction_fails_def)
next
  case (telnet_fail err)
  then show ?thesis by (simp add: rule_telnet_fail construction_failed_msg_def)
next
  case (telnet_ok p)
  with assms show ?thesis by (simp add: construction_fails_def)
next
  case default
  with assms show ?thesis by (simp add: construction_fails_def)
qed

lemma rule_Logger_grows:
  "set (Logger g) \<subseteq> set (Logger (snd (registerHandlers_rule e r g)))"
proof (cases rule: rule_cases [where rule = r and e = e])
  case skip
  then show ?thesis by (auto simp add: rule_skip)
next
  case tcp
  then show ?thesis by (auto simp add: rule_tcp check_handler_Logger)
next
  case (ssh_fail err)
  then show ?thesis by (auto simp add: rule_ssh_fail log_to_def)
next
  case (ssh_ok p)
  then show ?thesis by (auto simp add: rule_ssh_ok check_handler_Logger)
next
  case (telnet_fail err)
  then show ?thesis by (auto simp add: rule_telnet_fail log_to_def)
next
  case (telnet_ok p)
  then show ?thesis by (auto simp add: rule_telnet_ok check_handler_Logger)
next
  case default
  then show ?thesis by (auto simp add: rule_default check_handler_Logger)
qed

lemma loop_Logger_grows:
  "set (Logger g) \<subseteq> set (Logger (snd (registerHandlers_loop e rs g)))"
proof (induction rs arbitrary: g)
  case Nil
  show ?case by (simp only: loop_snd_Nil subset_refl)
next
  case (Cons r rs)
  have "set (Logger g) \<subseteq> set (Logger (snd (registerHandlers_rule e r g)))"
    by (rule rule_Logger_grows)
  also have "\<dots> \<subseteq> set (Logger (snd (registerHandlers_loop e rs (snd (registerHandlers_rule e r g)))))"
    by (rule Cons.IH)
  finally show ?case by (simp only: loop_snd_Cons)
qed

lemma rule_connHandlers_prefix:
  "\<exists>names. connHandlers (Processor (snd (registerHandlers_rule e r g))) =
             connHandlers (Processor g) @ names"
  using rule_connHandlers [of e r g] by blast

lemma loop_connHandlers_prefix:
  "\<exists>names. connHandlers (Processor (snd (registerHandlers_loop e rs g))) =
             connHandlers (Processor g) @ names"
proof (induction rs arbitrary: g)
  case Nil
  show ?case by (simp add: loop_snd_Nil del: registerHandlers_loop.simps)
next
  case (Cons r rs)
  let ?g1 = "snd (registerHandlers_rule e r g)"
  obtain n1 where n1: "connHandlers (Processor ?g1) = connHandlers (Processor g) @ n1"
    using rule_connHandlers_prefix by blast
  obtain n2 where n2: "connHandlers (Processor (snd (registerHandlers_loop e rs ?g1))) =
      connHandlers (Processor ?g1) @ n2"
    using Cons.IH by blast
  have "connHandlers (Processor (snd (registerHandlers_loop e (r # rs) g))) =
      connHandlers (Processor g) @ (n1 @ n2)"
    by (simp add: loop_snd_Cons n1 n2 del: registerHandlers_loop.simps)
  then show ?case by blast
qed

text \<open>A call made in an iteration is still in the list when the loop ends.\<close>

lemma loop_registered_stays:
  assumes "j < length rs"
    and "eligible (rs ! j)" and "\<not> construction_fails e (rs ! j)"
    and "go_index (protocolHandlers (snd (registerHandlers_loop e (take (Suc j) rs) g)))
           (resolved (rs ! j)) \<noteq> None"
  shows "connHandlers (Processor (snd (registerHandlers_loop e (take (Suc j) rs) g))) =
           connHandlers (Processor (snd (registerHandlers_loop e (take j rs) g)))
             @ [resolved (rs ! j)] \<and>
         (\<exists>rest. connHandlers (Processor (snd (registerHandlers_loop e rs g))) =
                   connHandlers (Processor (snd (registerHandlers_loop e (take j rs) g)))
                     @ resolved (rs ! j) # rest)"
proof -
  let ?before = "snd (registerHandlers_loop e (take j rs) g)"
  let ?after = "snd (registerHandlers_loop e (take (Suc j) rs) g)"
  have step: "?after = snd (registerHandlers_rule e (rs ! j) ?before)"
    using assms(1) by (rule loop_take_Suc)
  have found: "go_index (protocolHandlers (snd (registerHandlers_rule e (rs ! j) ?before)))
      (resolved (rs ! j)) \<noteq> None"
    using assms(4) unfolding step .
  have a: "connHandlers (Processor ?after) = connHandlers (Processor ?before) @ [resolved (rs ! j)]"
    unfolding step using rule_connHandlers [of e "rs ! j" ?before] assms(2,3) found
    by simp
  have "snd (registerHandlers_loop e rs g) =
      snd (registerHandlers_loop e (drop (Suc j) rs) ?after)"
    using loop_snd_append [of e "take (Suc j) rs" "drop (Suc j) rs" g]
    by (simp only: append_take_drop_id)
  then obtain names where
    "connHandlers (Processor (snd (registerHandlers_loop e rs g))) =
       connHandlers (Processor ?after) @ names"
    using loop_connHandlers_prefix [of e "drop (Suc j) rs" ?after] by auto
  then have "connHandlers (Processor (snd (registerHandlers_loop e rs g))) =
      connHandlers (Processor ?before) @ resolved (rs ! j) # names"
    by (simp add: a)
  with a show ?thesis by blast
qed

text \<open>
  C6. Let the construction of the SSH or telnet proxy fail for a rule \<open>R\<close> of type
  \<^verbatim>\<open>conn_handler\<close> with a target, anywhere in the rule set. The iteration for \<open>R\<close> only
  appends the error entry to the log: the processor receives no call, the registry and
  the rule stay as they are. The loop goes on: every other rule of type
  \<^verbatim>\<open>conn_handler\<close> with a target whose own construction does not fail and whose
  resolved name has a handler gets its callback registered in its iteration, and that
  call is in the list of the processor when the loop ends. At the end the processor has
  received the calls, and the registry has the content, that the rule set without \<open>R\<close>
  gives; the error entry is in the log.
\<close>

theorem registerHandlers_construction_failure_isolated:
  assumes "Type R = ''conn_handler''" and "Target R \<noteq> ''''"
    and "Name R = ''proxy_ssh'' \<and> isl (ssh_construct e (Target R)) \<or>
         Name R = ''proxy_telnet'' \<and> isl (telnet_construct e (Target R))"
  shows
    "let rs = pre @ R # post;
         start = g\<lparr>rules := rs\<rparr>;
         state = (\<lambda>j. snd (registerHandlers_loop e (take j rs) start));
         final = registerHandlers e start;
         without = registerHandlers e (g\<lparr>rules := pre @ post\<rparr>)
     in registerHandlers_rule e R (state (length pre)) =
          (R, (state (length pre))
                \<lparr>Logger := Logger (state (length pre))
                             @ [(ErrorLevel, construction_failed_msg R)]\<rparr>) \<and>
        rules final ! length pre = R \<and>
        (ErrorLevel, construction_failed_msg R) \<in> set (Logger final) \<and>
        (\<forall>j < length rs.
           j \<noteq> length pre \<and> Type (rs ! j) = ''conn_handler'' \<and> Target (rs ! j) \<noteq> '''' \<and>
           \<not> construction_fails e (rs ! j) \<and>
           go_index (protocolHandlers (state (Suc j))) (resolved (rs ! j)) \<noteq> None
           \<longrightarrow>
             connHandlers (Processor (state (Suc j))) =
               connHandlers (Processor (state j)) @ [resolved (rs ! j)] \<and>
             (\<exists>rest. connHandlers (Processor final) =
                       connHandlers (Processor (state j)) @ resolved (rs ! j) # rest)) \<and>
        connHandlers (Processor final) = connHandlers (Processor without) \<and>
        protocolHandlers final = protocolHandlers without"
proof -
  let ?rs = "pre @ R # post"
  let ?g1 = "g\<lparr>rules := ?rs\<rparr>"
  let ?g2 = "g\<lparr>rules := pre @ post\<rparr>"
  let ?state = "\<lambda>j. snd (registerHandlers_loop e (take j ?rs) ?g1)"
  let ?entry = "(ErrorLevel, construction_failed_msg R)"
  have el: "eligible R"
    using assms(1,2) by (simp add: eligible_def)
  have cf: "construction_fails e R"
    using assms(3) by (simp add: construction_fails_def)
  have step: "registerHandlers_rule e R s = (R, log_to ErrorLevel (construction_failed_msg R) s)"
    for s
    using el cf by (rule rule_construction_fails)
  have a: "registerHandlers_rule e R (?state (length pre)) =
      (R, (?state (length pre))\<lparr>Logger := Logger (?state (length pre)) @ [?entry]\<rparr>)"
    by (simp only: step log_to_def)
  have "fst (registerHandlers_rule e R s) = R" for s
    by (simp only: step fst_conv)
  then have same: "R\<lparr>Target := Target_after e R\<rparr> = R"
    by (simp only: rule_fst)
  have b: "rules (registerHandlers e ?g1) ! length pre = R"
    by (simp add: rules_registerHandlers nth_append same)
  let ?s1 = "snd (registerHandlers_loop e pre ?g1)"
  let ?s2 = "snd (registerHandlers_loop e pre ?g2)"
  have run1: "snd (registerHandlers_loop e ?rs ?g1) =
      snd (registerHandlers_loop e post (log_to ErrorLevel (construction_failed_msg R) ?s1))"
    by (simp only: loop_snd_append loop_snd_Cons step snd_conv)
  have run2: "snd (registerHandlers_loop e (pre @ post) ?g2) =
      snd (registerHandlers_loop e post ?s2)"
    by (simp only: loop_snd_append)
  have "same_dispatch ?g1 ?g2"
    by (simp add: same_dispatch_def)
  then have "same_dispatch ?s1 ?s2"
    by (rule loop_same_dispatch)
  then have "same_dispatch (log_to ErrorLevel (construction_failed_msg R) ?s1) ?s2"
    by (simp add: same_dispatch_def log_to_def)
  then have sd: "same_dispatch
      (snd (registerHandlers_loop e post (log_to ErrorLevel (construction_failed_msg R) ?s1)))
      (snd (registerHandlers_loop e post ?s2))"
    by (rule loop_same_dispatch)
  have c: "connHandlers (Processor (registerHandlers e ?g1)) =
        connHandlers (Processor (registerHandlers e ?g2))"
    and d: "protocolHandlers (registerHandlers e ?g1) = protocolHandlers (registerHandlers e ?g2)"
    using sd by (simp_all add: registerHandlers_snd run1 run2 same_dispatch_def)
  have "?entry \<in> set (Logger (log_to ErrorLevel (construction_failed_msg R) ?s1))"
    by (simp add: log_to_def)
  then have l: "?entry \<in> set (Logger (registerHandlers e ?g1))"
    using loop_Logger_grows [of "log_to ErrorLevel (construction_failed_msg R) ?s1" e post]
    by (auto simp add: registerHandlers_snd run1)
  have fin: "Processor (registerHandlers e ?g1) = Processor (snd (registerHandlers_loop e ?rs ?g1))"
    by (simp add: registerHandlers_snd)
  have others: "connHandlers (Processor (?state (Suc j))) =
        connHandlers (Processor (?state j)) @ [resolved (?rs ! j)] \<and>
      (\<exists>rest. connHandlers (Processor (registerHandlers e ?g1)) =
                connHandlers (Processor (?state j)) @ resolved (?rs ! j) # rest)"
    if "j < length ?rs" "Type (?rs ! j) = ''conn_handler''" "Target (?rs ! j) \<noteq> ''''"
      "\<not> construction_fails e (?rs ! j)"
      "go_index (protocolHandlers (?state (Suc j))) (resolved (?rs ! j)) \<noteq> None"
    for j
  proof -
    have "eligible (?rs ! j)"
      using that(2,3) by (simp add: eligible_def)
    from loop_registered_stays [OF that(1) this that(4,5)]
    show ?thesis unfolding fin .
  qed
  show ?thesis
    unfolding Let_def using a b c d l others by blast
qed

theorem registerHandlers_construction_failure_isolated_witness:
  "connHandlers (Processor
      (registerHandlers env_fail (glutton_http\<lparr>rules := [rule_http, rule_ssh, rule_smtp]\<rparr>)))
     = [''http''] \<and>
   (ErrorLevel, ''[ssh.prxy] failed to initialize SSH proxy'')
     \<in> set (Logger
         (registerHandlers env_fail (glutton_http\<lparr>rules := [rule_http, rule_ssh, rule_smtp]\<rparr>)))
   \<and> rules (registerHandlers env_fail
         (glutton_http\<lparr>rules := [rule_http, rule_ssh, rule_smtp]\<rparr>)) ! 1 = rule_ssh"
proof -
  let ?g = "glutton_http\<lparr>rules := [rule_http, rule_ssh, rule_smtp]\<rparr>"
  have h: "eligible rule_http" "\<not> construction_fails env_fail rule_http"
    "resolved rule_http = ''http''" "Name rule_http \<noteq> ''proxy_tcp''"
    "Type rule_http = ''conn_handler''" "Target rule_http = ''http''"
    by (simp_all add: eligible_def construction_fails_def resolved_def rule_http_def)
  have p: "protocolHandlers ?g = [''http'' \<mapsto> Some handler_ok]"
    and c: "connHandlers (Processor ?g) = []"
    by (simp_all add: glutton_http_def glutton_new_def)
  have found: "go_index (protocolHandlers
      (snd (registerHandlers_loop env_fail (take (Suc 0) [rule_http, rule_ssh, rule_smtp]) ?g)))
      (resolved rule_http) \<noteq> None"
    by (simp add: loop_snd_Cons loop_snd_Nil rule_protocolHandlers h p go_index_def
          del: registerHandlers_loop.simps)
  have w: "connHandlers (Processor
      (registerHandlers env_fail (glutton_http\<lparr>rules := [rule_http, rule_smtp]\<rparr>))) = [''http'']"
    by (simp add: registerHandlers_snd loop_snd_Cons loop_snd_Nil rule_connHandlers
          rule_protocolHandlers eligible_def construction_fails_def resolved_def
          rule_http_def rule_smtp_def glutton_http_def glutton_new_def go_index_def
          del: registerHandlers_loop.simps)
  show ?thesis
    using registerHandlers_construction_failure_isolated
      [where R = rule_ssh and e = env_fail and pre = "[rule_http]" and g = glutton_http
         and post = "[rule_smtp]"] found w
    by (simp add: rule_ssh_def env_fail_def construction_failed_msg_def Let_def
          del: registerHandlers_loop.simps)
qed

section \<open>A relay rule without a relay handler\<close>

lemma go_index_relay_registry:
  "go_index m ''proxy_tcp'' = None \<Longrightarrow> go_index m k = None \<Longrightarrow>
   go_index (relay_registry m t) k = None"
  by (simp add: go_index_def relay_registry_apply)

lemma rule_keeps_nil:
  assumes "go_index (protocolHandlers g) ''proxy_tcp'' = None"
    and "go_index (protocolHandlers g) k = None"
  shows "go_index (protocolHandlers (snd (registerHandlers_rule e r g))) k = None"
proof (cases "is_relay r")
  case True
  then show ?thesis
    using assms by (simp add: rule_protocolHandlers_relay go_index_relay_registry)
next
  case False
  then show ?thesis
    using assms by (simp add: rule_protocolHandlers_other)
qed

lemma loop_keeps_nil:
  assumes "go_index (protocolHandlers g) ''proxy_tcp'' = None"
    and "go_index (protocolHandlers g) k = None"
  shows "go_index (protocolHandlers (snd (registerHandlers_loop e rs g))) k = None \<and>
         (\<exists>names. connHandlers (Processor (snd (registerHandlers_loop e rs g))) =
                     connHandlers (Processor g) @ names \<and> k \<notin> set names)"
  using assms
proof (induction rs arbitrary: g)
  case Nil
  then show ?case by (simp add: loop_snd_Nil del: registerHandlers_loop.simps)
next
  case (Cons r rs)
  let ?g1 = "snd (registerHandlers_rule e r g)"
  have a: "go_index (protocolHandlers ?g1) ''proxy_tcp'' = None"
    using Cons.prems(1) Cons.prems(1) by (rule rule_keeps_nil)
  have b: "go_index (protocolHandlers ?g1) k = None"
    using Cons.prems by (rule rule_keeps_nil)
  have "\<exists>names. connHandlers (Processor ?g1) = connHandlers (Processor g) @ names \<and>
          k \<notin> set names"
  proof (cases "eligible r \<and> \<not> construction_fails e r \<and>
                go_index (protocolHandlers ?g1) (resolved r) \<noteq> None")
    case True
    then have "resolved r \<noteq> k" using b by auto
    moreover have "connHandlers (Processor ?g1) = connHandlers (Processor g) @ [resolved r]"
      using True by (simp add: rule_connHandlers)
    ultimately show ?thesis by simp
  next
    case False
    then have "connHandlers (Processor ?g1) = connHandlers (Processor g) @ []"
      using rule_connHandlers [of e r g] by (simp only: if_False)
    then show ?thesis by simp
  qed
  then obtain n1 where n1: "connHandlers (Processor ?g1) = connHandlers (Processor g) @ n1"
    "k \<notin> set n1" by blast
  from Cons.IH [OF a b] obtain n2 where
    n2: "go_index (protocolHandlers (snd (registerHandlers_loop e rs ?g1))) k = None"
      "connHandlers (Processor (snd (registerHandlers_loop e rs ?g1))) =
         connHandlers (Processor ?g1) @ n2" "k \<notin> set n2"
    by blast
  have "connHandlers (Processor (snd (registerHandlers_loop e rs ?g1))) =
      connHandlers (Processor g) @ (n1 @ n2) \<and> k \<notin> set (n1 @ n2)"
    using n1 n2 by simp
  then show ?case
    using n2(1) unfolding loop_snd_Cons by blast
qed

text \<open>
  C10 (amended). Take a rule of type \<^verbatim>\<open>conn_handler\<close>, named \<^verbatim>\<open>proxy_tcp\<close>, with a
  target, reached in a state where the registry has no handler under \<^verbatim>\<open>proxy_tcp\<close>.
  The iteration registers no callback and logs the warning. The registry then has no key
  \<^verbatim>\<open>proxy_tcp\<close>, and, when the target is not itself \<^verbatim>\<open>proxy_tcp\<close>, it has the target
  as a key with the \<^verbatim>\<open>nil\<close> handler. Whatever rules follow, the lookup of the target
  stays \<^verbatim>\<open>nil\<close> and no callback is registered under the target.
\<close>

theorem registerHandlers_relay_without_handler:
  assumes "Type r = ''conn_handler''" and "Name r = ''proxy_tcp''" and "Target r \<noteq> ''''"
    and "go_index (protocolHandlers g) ''proxy_tcp'' = None"
  shows
    "let g1 = snd (registerHandlers_rule e r g) in
       connHandlers (Processor g1) = connHandlers (Processor g) \<and>
       Logger g1 = Logger g @ [no_handler_msg (Target r)] \<and>
       protocolHandlers g1 ''proxy_tcp'' = None \<and>
       (Target r \<noteq> ''proxy_tcp'' \<longrightarrow> protocolHandlers g1 (Target r) = Some None) \<and>
       (\<forall>post.
          go_index (protocolHandlers (snd (registerHandlers_loop e post g1))) (Target r) = None \<and>
          (\<exists>names. connHandlers (Processor (snd (registerHandlers_loop e post g1))) =
                      connHandlers (Processor g1) @ names \<and> Target r \<notin> set names))"
proof -
  let ?g1 = "snd (registerHandlers_rule e r g)"
  have el: "eligible r"
    using assms(1,3) by (simp add: eligible_def)
  have rel: "is_relay r"
    using el assms(2) by (simp add: is_relay_def)
  have ncf: "\<not> construction_fails e r"
    using assms(2) by (simp add: construction_fails_def)
  have res: "resolved r = Target r"
    using assms(2) by (simp add: resolved_def)
  have p: "protocolHandlers ?g1 = relay_registry (protocolHandlers g) (Target r)"
    using rel by (rule rule_protocolHandlers_relay)
  have nil: "go_index (protocolHandlers ?g1) (Target r) = None"
    using assms(4) by (simp add: p go_index_def relay_registry_apply)
  have gone: "protocolHandlers ?g1 ''proxy_tcp'' = None"
    by (simp add: p relay_registry_apply)
  then have gone': "go_index (protocolHandlers ?g1) ''proxy_tcp'' = None"
    by (simp add: go_index_def)
  have c: "connHandlers (Processor ?g1) = connHandlers (Processor g)"
    using rule_connHandlers [of e r g] nil by (simp add: res)
  have l: "Logger ?g1 = Logger g @ [no_handler_msg (Target r)]"
    using rule_Logger_found [OF el ncf, of g] nil by (simp add: res)
  have k: "Target r \<noteq> ''proxy_tcp'' \<longrightarrow> protocolHandlers ?g1 (Target r) = Some None"
    using assms(4) by (simp add: p relay_registry_apply)
  have later: "go_index (protocolHandlers (snd (registerHandlers_loop e post ?g1))) (Target r) = None \<and>
      (\<exists>names. connHandlers (Processor (snd (registerHandlers_loop e post ?g1))) =
                  connHandlers (Processor ?g1) @ names \<and> Target r \<notin> set names)" for post
    using gone' nil by (rule loop_keeps_nil)
  show ?thesis
    unfolding Let_def using c l gone k later by blast
qed

theorem registerHandlers_relay_without_handler_witness:
  "protocolHandlers (snd (registerHandlers_rule env_ok rule_relay glutton_new)) ''8080''
     = Some None \<and>
   connHandlers (Processor (snd (registerHandlers_rule env_ok rule_relay glutton_new))) = [] \<and>
   Logger (snd (registerHandlers_rule env_ok rule_relay glutton_new))
     = [no_handler_msg ''8080''] \<and>
   go_index (protocolHandlers
      (snd (registerHandlers_loop env_ok [rule_http]
         (snd (registerHandlers_rule env_ok rule_relay glutton_new))))) ''8080'' = None"
  using registerHandlers_relay_without_handler [of rule_relay glutton_new env_ok]
  by (simp add: rule_relay_def glutton_new_def go_index_def Let_def
        del: registerHandlers_loop.simps)

text \<open>
  C10 as stated fails for the target \<^verbatim>\<open>proxy_tcp\<close>: line 164 deletes the key that line
  163 has just written, so the target is not a key of the registry.
\<close>

theorem relay_without_handler_counterexample:
  "\<not> (protocolHandlers
        (registerHandlers env_ok (glutton_new\<lparr>rules := [rule_relay_self]\<rparr>))
        (Target rule_relay_self) = Some None)"
proof -
  have "is_relay rule_relay_self"
    by (simp add: is_relay_def eligible_def rule_relay_self_def)
  then have "protocolHandlers
      (snd (registerHandlers_rule env_ok rule_relay_self (glutton_new\<lparr>rules := [rule_relay_self]\<rparr>)))
      = relay_registry (protocolHandlers (glutton_new\<lparr>rules := [rule_relay_self]\<rparr>))
          (Target rule_relay_self)"
    by (rule rule_protocolHandlers_relay)
  then show ?thesis
    by (simp add: registerHandlers_snd loop_snd_Cons loop_snd_Nil relay_registry_apply
          rule_relay_self_def del: registerHandlers_loop.simps)
qed

section \<open>The connection callback: telemetry, deadline and the channel \<^verbatim>\<open>done\<close>\<close>

lemma serve_trace_cases:
  "snd (serve e g handler c) = [EvGo_closeOnShutdown, EvSetDeadline (conn_timeout e)] \<or>
   snd (serve e g handler c) =
     [EvGo_closeOnShutdown, EvSetDeadline (conn_timeout e), EvContext 72] \<or>
   snd (serve e g handler c) =
     [EvGo_closeOnShutdown, EvSetDeadline (conn_timeout e), EvContext 72, EvHandler handler] \<or>
   snd (serve e g handler c) =
     [EvGo_closeOnShutdown, EvSetDeadline (conn_timeout e), EvContext 72, EvHandler handler,
      EvDone]"
  by (simp add: serve_def Let_def split: option.splits)

lemma serve_no_emission: "EvProducerLog r \<notin> set (snd (serve e g handler c))"
  using serve_trace_cases [of e g handler c] by auto

text \<open>The path of the callback on which the handler runs and the send completes.\<close>

lemma serve_handler_returns:
  assumes "SetDeadline_result c = None" and "go_index (protocolHandlers g) handler = Some h"
    and "\<not> watchdog_left e"
  shows "serve e g handler c =
     (Returned (h (contextWithTimeout g 72) c),
      [EvGo_closeOnShutdown, EvSetDeadline (conn_timeout e), EvContext 72, EvHandler handler,
       EvDone])"
  using assms by (simp add: serve_def send_done_def Let_def)

text \<open>The path on which \<^verbatim>\<open>SetDeadline\<close> fails: line 223 returns after line 221.\<close>

lemma serve_deadline_error:
  "SetDeadline_result c = Some err \<Longrightarrow>
   serve e g handler c =
     (Returned (Some err), [EvGo_closeOnShutdown, EvSetDeadline (conn_timeout e)])"
  by (simp add: serve_def)

lemma connHandler_emits_first:
  assumes "Producer g = Some p" and "connHandler e g handler c (Some m) = (r, t)"
    and "t = pre @ EvHandler n # post"
  shows "\<exists>x. EvProducerLog x \<in> set pre"
proof (cases "SplitHostPort e (RemoteAddr c)")
  case (Inl err)
  with assms(2,3) show ?thesis by (simp add: connHandler_def)
next
  case (Inr hp)
  obtain host port where hp: "hp = (host, port)" by (cases hp)
  let ?rec = "\<lparr>identity = sensorID p, peer = RemoteAddr c,
                dest_port = map_option TargetPort (Some m), payload = None\<rparr>"
  let ?t1 = "EvLog DebugLevel
               (''[glutton ] new connection: '' @ host @ '':'' @ port @ '' -> ''
                  @ Itoa (TargetPort m))"
  show ?thesis
  proof (cases "sink e ?rec")
    case None
    then have t: "t = ?t1 # EvProducerLog ?rec # snd (serve e g handler c)"
      using assms(1,2) Inr hp
      by (auto simp add: connHandler_def Producer_Log_def Let_def split: prod.splits)
    from assms(3) t
    have eq: "pre @ EvHandler n # post = ?t1 # EvProducerLog ?rec # snd (serve e g handler c)"
      by simp
    show ?thesis
    proof (cases pre)
      case Nil
      with eq show ?thesis by simp
    next
      case (Cons a pre1)
      note c1 = this
      show ?thesis
      proof (cases pre1)
        case Nil
        with eq c1 show ?thesis by simp
      next
        case (Cons b pre2)
        with eq c1 have "b = EvProducerLog ?rec" by simp
        with c1 Cons show ?thesis by auto
      qed
    qed
  next
    case (Some err)
    then have t: "t = [?t1, EvProducerLog ?rec,
        EvLog ErrorLevel (''[glutton ] error: '' @ Error_string err)]"
      using assms(1,2) Inr hp
      by (auto simp add: connHandler_def Producer_Log_def Let_def split: prod.splits)
    have "EvHandler n \<notin> set t"
      unfolding t by simp
    with assms(3) show ?thesis by simp
  qed
qed

lemma connHandler_emission_fails:
  assumes "Producer g = Some p" and "SplitHostPort e (RemoteAddr c) = Inr (host, port)"
    and "sink e \<lparr>identity = sensorID p, peer = RemoteAddr c,
                 dest_port = Some (TargetPort m), payload = None\<rparr> = Some err"
  shows "connHandler e g handler c (Some m) =
     (Returned (Some err),
      [EvLog DebugLevel
         (''[glutton ] new connection: '' @ host @ '':'' @ port @ '' -> '' @ Itoa (TargetPort m)),
       EvProducerLog \<lparr>identity = sensorID p, peer = RemoteAddr c,
                       dest_port = Some (TargetPort m), payload = None\<rparr>,
       EvLog ErrorLevel (''[glutton ] error: '' @ Error_string err)])"
  using assms by (simp add: connHandler_def Producer_Log_def Let_def)

text \<open>
  C5. A connection with metadata, and a producer configured. In the trace of the
  callback every call of the handler comes after an emission of the telemetry record.
  When the callback reaches the emission (the peer address parses) and the sink rejects
  the record, the callback returns that error and its trace has no call of a handler.
\<close>

theorem connHandler_telemetry_before_handler:
  assumes "Producer g = Some p" and "connHandler e g handler c (Some m) = (r, t)"
  shows "(\<forall>pre n post. t = pre @ EvHandler n # post \<longrightarrow> (\<exists>x. EvProducerLog x \<in> set pre)) \<and>
         (\<forall>host port err.
            SplitHostPort e (RemoteAddr c) = Inr (host, port) \<and>
            sink e \<lparr>identity = sensorID p, peer = RemoteAddr c,
                    dest_port = Some (TargetPort m), payload = None\<rparr> = Some err
            \<longrightarrow> r = Returned (Some err) \<and> (\<forall>n. EvHandler n \<notin> set t))"
proof -
  have a: "\<exists>x. EvProducerLog x \<in> set pre" if "t = pre @ EvHandler n # post" for pre n post
    using assms that by (rule connHandler_emits_first)
  have b: "r = Returned (Some err) \<and> (\<forall>n. EvHandler n \<notin> set t)"
    if "SplitHostPort e (RemoteAddr c) = Inr (host, port)"
      and "sink e \<lparr>identity = sensorID p, peer = RemoteAddr c,
                    dest_port = Some (TargetPort m), payload = None\<rparr> = Some err"
    for host port err
    using connHandler_emission_fails [OF assms(1) that, of handler] assms(2) by auto
  show ?thesis using a b by blast
qed

theorem connHandler_telemetry_before_handler_witness:
  "connHandler env_ok glutton_serving ''http'' conn_open (Some \<lparr>TargetPort = 80\<rparr>) =
     (Returned None,
      [EvLog DebugLevel (''[glutton ] new connection: 198.51.100.7:40022 -> '' @ Itoa 80),
       EvProducerLog \<lparr>identity = ''f3a1'', peer = ''198.51.100.7:40022'', dest_port = Some 80,
                       payload = None\<rparr>,
       EvGo_closeOnShutdown, EvSetDeadline 45, EvContext 72] @ EvHandler ''http'' # [EvDone]) \<and>
   (\<exists>x. EvProducerLog x \<in> set
      [EvLog DebugLevel (''[glutton ] new connection: 198.51.100.7:40022 -> '' @ Itoa 80),
       EvProducerLog \<lparr>identity = ''f3a1'', peer = ''198.51.100.7:40022'', dest_port = Some 80,
                       payload = None\<rparr>,
       EvGo_closeOnShutdown, EvSetDeadline 45, EvContext 72]) \<and>
   fst (connHandler env_fail glutton_serving ''http'' conn_open (Some \<lparr>TargetPort = 80\<rparr>)) =
     Returned (Some (Failure ''hpfeeds: not connected'')) \<and>
   (\<forall>n. EvHandler n \<notin> set
      (snd (connHandler env_fail glutton_serving ''http'' conn_open (Some \<lparr>TargetPort = 80\<rparr>))))"
proof -
  let ?log = "EvLog DebugLevel (''[glutton ] new connection: 198.51.100.7:40022 -> '' @ Itoa 80)"
  let ?rec = "\<lparr>identity = ''f3a1'', peer = ''198.51.100.7:40022'', dest_port = Some 80,
               payload = None\<rparr>"
  let ?pre = "[?log, EvProducerLog ?rec, EvGo_closeOnShutdown, EvSetDeadline 45, EvContext 72]"
  have p: "Producer glutton_serving = Some \<lparr>sensorID = ''f3a1''\<rparr>"
    by (simp add: glutton_serving_def)
  have run: "connHandler env_ok glutton_serving ''http'' conn_open (Some \<lparr>TargetPort = 80\<rparr>) =
      (Returned None, ?pre @ EvHandler ''http'' # [EvDone])"
    by (simp add: connHandler_def Producer_Log_def serve_def send_done_def go_index_def
          contextWithTimeout_def Let_def glutton_serving_def glutton_new_def env_ok_def
          conn_open_def handler_ok_def)
  obtain r t where rt:
    "connHandler env_fail glutton_serving ''http'' conn_open (Some \<lparr>TargetPort = 80\<rparr>) = (r, t)"
    by (cases "connHandler env_fail glutton_serving ''http'' conn_open (Some \<lparr>TargetPort = 80\<rparr>)")
  have s: "SplitHostPort env_fail (RemoteAddr conn_open) = Inr (''198.51.100.7'', ''40022'')"
    "sink env_fail \<lparr>identity = sensorID \<lparr>sensorID = ''f3a1''\<rparr>, peer = RemoteAddr conn_open,
                    dest_port = Some (TargetPort \<lparr>TargetPort = 80\<rparr>), payload = None\<rparr>
       = Some (Failure ''hpfeeds: not connected'')"
    by (simp_all add: env_fail_def)
  from connHandler_telemetry_before_handler [OF p run]
  have "\<exists>x. EvProducerLog x \<in> set ?pre" by blast
  moreover from connHandler_telemetry_before_handler [OF p rt] s
  have "r = Returned (Some (Failure ''hpfeeds: not connected'')) \<and> (\<forall>n. EvHandler n \<notin> set t)"
    by blast
  ultimately show ?thesis using run rt by simp
qed

text \<open>
  C3 fails on the code. The connection has metadata, the telemetry record is accepted,
  and \<^verbatim>\<open>SetDeadline\<close> fails (the connection is closed already). The callback has
  started the watchdog (line 221) and returns at line 223: no handler has run, nothing
  has been sent on \<^verbatim>\<open>done\<close>, and the value returned is the error of \<^verbatim>\<open>SetDeadline\<close>.
\<close>

theorem connHandler_deadline_error_skips_done:
  "connHandler env_ok glutton_serving ''http'' conn_closed (Some \<lparr>TargetPort = 80\<rparr>) =
     (Returned (Some (Failure ''use of closed network connection'')),
      [EvLog DebugLevel (''[glutton ] new connection: 198.51.100.7:40022 -> '' @ Itoa 80),
       EvProducerLog \<lparr>identity = ''f3a1'', peer = ''198.51.100.7:40022'', dest_port = Some 80,
                       payload = None\<rparr>,
       EvGo_closeOnShutdown, EvSetDeadline 45])"
  by (simp add: connHandler_def Producer_Log_def serve_def Let_def glutton_serving_def
        glutton_new_def env_ok_def conn_closed_def)

text \<open>
  With no producer configured the callback skips the emission (line 213).
  \<^verbatim>\<open>Produce\<close> (line 240) has no such guard: it calls \<^verbatim>\<open>Log\<close> on the \<^verbatim>\<open>nil\<close> producer
  and gives back whatever that call does.
\<close>

lemma connHandler_without_producer:
  "Producer g = None \<Longrightarrow> EvProducerLog x \<notin> set (snd (connHandler e g handler c md))"
  using serve_no_emission [of x e g handler c]
  by (auto simp add: connHandler_def Let_def split: sum.splits option.splits prod.splits)

lemma Produce_without_producer:
  "Produce e (g\<lparr>Producer := None\<rparr>) c md pl = (Log_nil_receiver e, [])"
  by (simp add: Produce_def Producer_Log_def)

section \<open>The identity file\<close>

lemma length_Bytes: "length (Bytes u) = 16"
  using Rep_uuid [of u] by (simp add: Bytes_def)

lemma FromBytes_Bytes: "FromBytes (Bytes u) = (u, None)"
  by (simp add: FromBytes_def length_Bytes) (simp add: Bytes_def Rep_uuid_inverse)

lemma MkdirAll_cases:
  "MkdirAll e d fs = (r, fs1) \<Longrightarrow>
   (r = None \<and> fs1 = fs(d \<mapsto> Dir) \<and> (\<forall>bs. fs d \<noteq> Some (File bs)) \<and> MkdirAll_fault e = None) \<or>
   (r \<noteq> None \<and> fs1 = fs)"
  by (auto simp add: MkdirAll_def split: option.splits node.splits)

lemma makeID_MkdirAll_error:
  "MkdirAll e (var_dir e) fs = (Some err, fs1) \<Longrightarrow> makeID e g fs = (Some err, g, fs1)"
  by (simp add: makeID_def)

text \<open>After a successful \<^verbatim>\<open>MkdirAll\<close>: the branch for an absent file.\<close>

lemma makeID_absent:
  assumes "MkdirAll e (var_dir e) fs = (None, fs1)" and "fs1 (idPath e) = None"
    and "Stat_fault e = None"
  shows "makeID e g fs =
     (case WriteFile e (idPath e) (Bytes (NewV4 e)) fs1 of
        (r, fs2) \<Rightarrow> (r, g\<lparr>id_g := NewV4 e\<rparr>, fs2))"
  using assms
  by (simp add: makeID_def idPath_def Stat_def Let_def split: prod.splits option.splits)

text \<open>After a successful \<^verbatim>\<open>MkdirAll\<close>: the branch for a path that exists.\<close>

lemma makeID_present:
  assumes "MkdirAll e (var_dir e) fs = (None, fs1)" and "fs1 (idPath e) = Some n"
  shows "makeID e g fs =
     (case Stat_fault e of
        Some msg \<Rightarrow> (Some (Failure msg), g, fs1)
      | None \<Rightarrow>
          (case Open_fault e of
             Some msg \<Rightarrow> (Some (Failure msg), g, fs1)
           | None \<Rightarrow>
               (case ReadAll e n of
                  Inl err \<Rightarrow> (Some err, g, fs1)
                | Inr buff \<Rightarrow> (snd (FromBytes buff), g\<lparr>id_g := fst (FromBytes buff)\<rparr>, fs1))))"
  using assms
  by (simp add: makeID_def idPath_def Stat_def Open_def Let_def
        split: prod.splits option.splits sum.splits)

lemma makeID_Stat_fault:
  assumes "MkdirAll e (var_dir e) fs = (None, fs1)" and "Stat_fault e = Some msg"
  shows "makeID e g fs = (Some (Failure msg), g, fs1)"
  using assms
  by (simp add: makeID_def idPath_def Stat_def Let_def)

lemma makeID_success:
  assumes "makeID e g fs = (None, g1, fs1)"
  shows "idPath e \<noteq> var_dir e \<and> fs1 (var_dir e) = Some Dir \<and>
         (\<exists>bs. fs1 (idPath e) = Some (File bs) \<and> length bs = 16 \<and> id_g g1 = Abs_uuid bs)"
proof -
  obtain r fsm where m: "MkdirAll e (var_dir e) fs = (r, fsm)"
    by (cases "MkdirAll e (var_dir e) fs")
  from MkdirAll_cases [OF m] have ok: "r = None" and fsm: "fsm = fs(var_dir e \<mapsto> Dir)"
    using assms m by (auto simp add: makeID_MkdirAll_error)
  have m': "MkdirAll e (var_dir e) fs = (None, fsm)"
    using m ok by simp
  have d: "fsm (var_dir e) = Some Dir"
    by (simp add: fsm)
  have sf: "Stat_fault e = None"
    using makeID_Stat_fault [OF m', of _ g] assms by (cases "Stat_fault e") auto
  show ?thesis
  proof (cases "fsm (idPath e)")
    case None
    then have ne: "idPath e \<noteq> var_dir e"
      using d by auto
    have "makeID e g fs =
        (case WriteFile e (idPath e) (Bytes (NewV4 e)) fsm of
           (r, fs2) \<Rightarrow> (r, g\<lparr>id_g := NewV4 e\<rparr>, fs2))"
      using m' None sf by (rule makeID_absent)
    with assms have w: "WriteFile e (idPath e) (Bytes (NewV4 e)) fsm = (None, fs1)"
      and g1: "g1 = g\<lparr>id_g := NewV4 e\<rparr>"
      by (auto split: prod.splits)
    from w None have fs1: "fs1 = fsm(idPath e \<mapsto> File (Bytes (NewV4 e)))"
      by (auto simp add: WriteFile_def split: option.splits prod.splits)
    have "id_g g1 = Abs_uuid (Bytes (NewV4 e))"
      by (simp add: g1 Bytes_def Rep_uuid_inverse)
    then show ?thesis
      using ne d by (simp add: fs1 length_Bytes)
  next
    case (Some n)
    from makeID_present [OF m' Some, of g] assms sf
    obtain buff where rd: "ReadAll e n = Inr buff" and fb: "snd (FromBytes buff) = None"
      and g1: "g1 = g\<lparr>id_g := fst (FromBytes buff)\<rparr>" and fs1: "fs1 = fsm"
      by (auto split: option.splits sum.splits)
    from rd have n: "n = File buff"
      by (auto simp add: ReadAll_def split: option.splits node.splits)
    from fb have len: "length buff = 16"
      by (auto simp add: FromBytes_def split: if_splits)
    then have "id_g g1 = Abs_uuid buff"
      by (simp add: g1 FromBytes_def)
    moreover have "idPath e \<noteq> var_dir e"
      using d Some n by auto
    ultimately show ?thesis
      using d Some n len by (simp add: fs1)
  qed
qed

lemma makeID_rerun:
  assumes "fs (var_dir e) = Some Dir" and "fs (idPath e) = Some (File bs)" and "length bs = 16"
  shows "snd (snd (makeID e g fs)) = fs"
    and "fst (makeID e g fs) = None \<longrightarrow> id_g (fst (snd (makeID e g fs))) = Abs_uuid bs"
    and "no_faults e \<longrightarrow> fst (makeID e g fs) = None"
proof -
  have triv: "fs(var_dir e \<mapsto> Dir) = fs"
    using assms(1) by (rule map_upd_triv)
  have fb: "FromBytes bs = (Abs_uuid bs, None)"
    using assms(3) by (simp add: FromBytes_def)
  have all: "snd (snd (makeID e g fs)) = fs \<and>
      (fst (makeID e g fs) = None \<longrightarrow> id_g (fst (snd (makeID e g fs))) = Abs_uuid bs) \<and>
      (no_faults e \<longrightarrow> fst (makeID e g fs) = None)"
  proof (cases "MkdirAll_fault e")
    case (Some msg)
    then have "MkdirAll e (var_dir e) fs = (Some (Failure msg), fs)"
      by (simp add: MkdirAll_def)
    then have "makeID e g fs = (Some (Failure msg), g, fs)"
      by (rule makeID_MkdirAll_error)
    then show ?thesis using Some by (simp add: no_faults_def)
  next
    case None
    then have m: "MkdirAll e (var_dir e) fs = (None, fs)"
      using assms(1) by (simp add: MkdirAll_def triv)
    note run = makeID_present [OF m assms(2), of g]
    show ?thesis
      unfolding run
      by (simp add: ReadAll_def fb no_faults_def None split: option.splits)
  qed
  from all show "snd (snd (makeID e g fs)) = fs"
    and "fst (makeID e g fs) = None \<longrightarrow> id_g (fst (snd (makeID e g fs))) = Abs_uuid bs"
    and "no_faults e \<longrightarrow> fst (makeID e g fs) = None"
    by blast+
qed

text \<open>A path that exists is read, whatever \<^verbatim>\<open>uuid.NewV4\<close> would draw, and is left as it is.\<close>

lemma makeID_existing_frame:
  assumes "fs (idPath e) \<noteq> None"
  shows "makeID (e\<lparr>NewV4 := u\<rparr>) g fs = makeID e g fs \<and>
         snd (snd (makeID e g fs)) (idPath e) = fs (idPath e)"
proof -
  let ?e = "e\<lparr>NewV4 := u\<rparr>"
  have same: "var_dir ?e = var_dir e" "idPath ?e = idPath e" "Stat_fault ?e = Stat_fault e"
    "Open_fault ?e = Open_fault e" "ReadAll ?e = ReadAll e"
    "MkdirAll ?e = MkdirAll e"
    by (simp_all add: idPath_def ReadAll_def MkdirAll_def fun_eq_iff)
  obtain r fsm where m: "MkdirAll e (var_dir e) fs = (r, fsm)"
    by (cases "MkdirAll e (var_dir e) fs")
  show ?thesis
  proof (cases r)
    case (Some err)
    from MkdirAll_cases [OF m] Some have "fsm = fs" by simp
    moreover have "makeID e g fs = (Some err, g, fsm)" "makeID ?e g fs = (Some err, g, fsm)"
      using m Some by (simp_all add: makeID_MkdirAll_error same)
    ultimately show ?thesis by simp
  next
    case None
    from MkdirAll_cases [OF m] None
    have fsm: "fsm = fs(var_dir e \<mapsto> Dir)" and nf: "\<forall>bs. fs (var_dir e) \<noteq> Some (File bs)"
      by simp_all
    have keep: "fsm (idPath e) = fs (idPath e)"
    proof (cases "idPath e = var_dir e")
      case True
      with assms nf obtain n where "fs (var_dir e) = Some n" by auto
      with nf have "fs (var_dir e) = Some Dir" by (cases n) auto
      with True show ?thesis by (simp add: fsm)
    next
      case False
      then show ?thesis by (simp add: fsm)
    qed
    with assms obtain n where n: "fsm (idPath e) = Some n" by auto
    have m1: "MkdirAll e (var_dir e) fs = (None, fsm)"
      using m None by simp
    have m2: "MkdirAll ?e (var_dir ?e) fs = (None, fsm)"
      using m1 by (simp only: same)
    have n2: "fsm (idPath ?e) = Some n"
      using n by (simp only: same)
    have "makeID ?e g fs = makeID e g fs"
      unfolding makeID_present [OF m1 n] makeID_present [OF m2 n2] by (simp only: same)
    moreover have "snd (snd (makeID e g fs)) = fsm"
      unfolding makeID_present [OF m1 n] by (simp split: option.splits sum.splits)
    ultimately show ?thesis using keep by simp
  qed
qed

lemma makeID_parses:
  assumes "no_faults e" and "fs (idPath e) = Some (File bs)"
    and "\<forall>x. fs (var_dir e) \<noteq> Some (File x)"
  shows "makeID e g fs =
     (snd (FromBytes bs), g\<lparr>id_g := fst (FromBytes bs)\<rparr>, fs(var_dir e \<mapsto> Dir))"
proof -
  have ne: "idPath e \<noteq> var_dir e"
    using assms(2,3) by auto
  have m: "MkdirAll e (var_dir e) fs = (None, fs(var_dir e \<mapsto> Dir))"
    using assms(1,3) by (auto simp add: MkdirAll_def no_faults_def split: option.splits node.splits)
  have n: "(fs(var_dir e \<mapsto> Dir)) (idPath e) = Some (File bs)"
    using ne assms(2) by simp
  show ?thesis
    unfolding makeID_present [OF m n]
    using assms(1) by (simp add: no_faults_def ReadAll_def)
qed

text \<open>
  C7. Let a first run of \<^verbatim>\<open>makeID\<close> succeed, and run it again on the file system it
  leaves, with the same storage directory, whatever the operating system and
  \<^verbatim>\<open>uuid.NewV4\<close> do this time. The second run leaves the file system as it is; when it
  succeeds, it yields the identity of the first run; and it succeeds when the operating
  system adds no failure. In general: a path that exists is read and never written, and
  the result does not depend on \<^verbatim>\<open>uuid.NewV4\<close>, so that an identity is generated and
  written only when the file is absent; the bytes of an existing file are parsed, with
  the identity they hold for 16 bytes and an error otherwise.
\<close>

theorem makeID_identity_stable:
  assumes "makeID e1 g fs = (None, g1, fs1)"
    and "var_dir e2 = var_dir e1" and "Join e2 = Join e1"
  shows "snd (snd (makeID e2 g2 fs1)) = fs1 \<and>
         (fst (makeID e2 g2 fs1) = None \<longrightarrow> id_g (fst (snd (makeID e2 g2 fs1))) = id_g g1) \<and>
         (no_faults e2 \<longrightarrow> fst (makeID e2 g2 fs1) = None) \<and>
         (\<forall>e' g' fs' u.
            fs' (idPath e') \<noteq> None \<longrightarrow>
              makeID (e'\<lparr>NewV4 := u\<rparr>) g' fs' = makeID e' g' fs' \<and>
              snd (snd (makeID e' g' fs')) (idPath e') = fs' (idPath e')) \<and>
         (\<forall>e' g' fs' bs.
            no_faults e' \<and> fs' (idPath e') = Some (File bs) \<and>
            (\<forall>x. fs' (var_dir e') \<noteq> Some (File x)) \<longrightarrow>
              makeID e' g' fs' =
                (if length bs = 16 then None
                 else Some (Failure (''uuid: UUID must be exactly 16 bytes long, got ''
                                       @ Itoa (length bs) @ '' bytes'')),
                 g'\<lparr>id_g := if length bs = 16 then Abs_uuid bs else Nil_uuid\<rparr>,
                 fs'(var_dir e' \<mapsto> Dir)))"
proof -
  from makeID_success [OF assms(1)] obtain bs where
    d: "fs1 (var_dir e1) = Some Dir" and p: "fs1 (idPath e1) = Some (File bs)"
    and len: "length bs = 16" and id1: "id_g g1 = Abs_uuid bs"
    by blast
  have same: "var_dir e2 = var_dir e1" "idPath e2 = idPath e1"
    using assms(2,3) by (simp_all add: idPath_def)
  have d2: "fs1 (var_dir e2) = Some Dir" and p2: "fs1 (idPath e2) = Some (File bs)"
    using d p by (simp_all only: same)
  note again = makeID_rerun [OF d2 p2 len, of g2]
  have parse: "makeID e' g' fs' =
      (if length bs = 16 then None
       else Some (Failure (''uuid: UUID must be exactly 16 bytes long, got ''
                             @ Itoa (length bs) @ '' bytes'')),
       g'\<lparr>id_g := if length bs = 16 then Abs_uuid bs else Nil_uuid\<rparr>,
       fs'(var_dir e' \<mapsto> Dir))"
    if "no_faults e'" "fs' (idPath e') = Some (File bs)" "\<forall>x. fs' (var_dir e') \<noteq> Some (File x)"
    for e' g' fs' bs
    unfolding makeID_parses [OF that] by (simp add: FromBytes_def)
  show ?thesis
    using again makeID_existing_frame parse by (simp add: id1)
qed

theorem makeID_identity_stable_witness:
  "fst (makeID os_plain glutton_new Map.empty) = None \<and>
   id_g (fst (snd (makeID os_plain glutton_new Map.empty))) = NewV4 os_plain \<and>
   fst (makeID os_later glutton_new (snd (snd (makeID os_plain glutton_new Map.empty)))) = None \<and>
   id_g (fst (snd (makeID os_later glutton_new
      (snd (snd (makeID os_plain glutton_new Map.empty)))))) = NewV4 os_plain \<and>
   snd (snd (makeID os_later glutton_new (snd (snd (makeID os_plain glutton_new Map.empty))))) =
     snd (snd (makeID os_plain glutton_new Map.empty))"
proof -
  have m: "MkdirAll os_plain (var_dir os_plain) Map.empty = (None, [var_dir os_plain \<mapsto> Dir])"
    by (simp add: MkdirAll_def os_plain_def)
  have a: "[var_dir os_plain \<mapsto> Dir] (idPath os_plain) = None"
    by (simp add: idPath_def os_plain_def)
  have ne: "idPath os_plain \<noteq> var_dir os_plain"
    by (simp add: idPath_def os_plain_def)
  have sf: "Stat_fault os_plain = None" and wf: "WriteFile_fault os_plain = None"
    by (simp_all add: os_plain_def)
  have run: "makeID os_plain glutton_new Map.empty =
      (None, glutton_new\<lparr>id_g := NewV4 os_plain\<rparr>,
       [var_dir os_plain \<mapsto> Dir, idPath os_plain \<mapsto> File (Bytes (NewV4 os_plain))])"
    unfolding makeID_absent [OF m a sf] using ne by (simp add: WriteFile_def wf)
  have s: "var_dir os_later = var_dir os_plain" "Join os_later = Join os_plain"
    "no_faults os_later"
    by (simp_all add: os_later_def os_plain_def no_faults_def)
  show ?thesis
    using makeID_identity_stable [OF run s(1,2), of glutton_new] s(3)
    by (simp add: run)
qed

section \<open>\<^verbatim>\<open>Shutdown\<close>, called twice\<close>

text \<open>
  C4 (amended). A second call of \<^verbatim>\<open>Shutdown\<close> runs the same steps as the first: it
  cancels the context (which is cancelled already), sleeps the two seconds, calls
  \<^verbatim>\<open>Processor.Shutdown\<close> once more and returns what that call returns.
\<close>

theorem Shutdown_repeats:
  "case Shutdown e g of
     (err1, g1, t1) \<Rightarrow>
       (case Shutdown e g1 of
          (err2, g2, t2) \<Rightarrow>
            t2 = [EvCancel, EvSleep 2, EvProcessorShutdown, EvLoggerSync] \<and> t2 = t1 \<and>
            err2 = Processor_Shutdown e (Processor g1) \<and>
            shutdowns (Processor g2) = shutdowns (Processor g) + 2 \<and>
            ctx_cancelled g1 \<and> ctx_cancelled g2)"
  by (simp add: Shutdown_def Let_def)

text \<open>
  C4 as stated fails: the second call sleeps and stops the processor again.
\<close>

theorem Shutdown_second_call_counterexample:
  "\<not> (case Shutdown env_ok glutton_new of
        (err1, g1, t1) \<Rightarrow>
          (case Shutdown env_ok g1 of
             (err2, g2, t2) \<Rightarrow>
               err2 = None \<and> EvSleep 2 \<notin> set t2 \<and> EvProcessorShutdown \<notin> set t2 \<and>
               shutdowns (Processor g2) = shutdowns (Processor g1)))"
  by (simp add: Shutdown_def Let_def)

end
